theory Spec2Isabelle
  imports Complex_Main "HOL-Library.AList"
begin

section \<open>Data model of the chat server (app.js)\<close>

text \<open>
  Socket ids (generated by the transport) and room ids (generated by uuidv4) are strings.
  Time stamps are the values of Date.now(). Coordinates are JavaScript numbers; they are
  modelled as real numbers, with \<open>None\<close> for null or undefined.
\<close>

type_synonym socket_id = string
type_synonym room_id = string
type_synonym time = nat

text \<open>
  The location object built by LocationService.getLocationFromIP. Only the fields that the
  socket handlers read are kept (country, region, city, latitude, longitude).
\<close>

record location =
  country :: string
  region :: string
  city :: string
  latitude :: "real option"
  longitude :: "real option"

text \<open>
  The object stored in userSockets by join-system, which is also the shape of a waiting
  entry (addWaitingUser spreads it and overwrites joinedAt) and of the two members of a room.
  The nickname is the only client-supplied field the handlers read.
\<close>

record user_info =
  socketId :: socket_id
  nickname :: "string option"
  joinedAt :: time
  location :: "location option"
  ip :: string

record media_data =
  mediaType :: string
  url :: string
  thumbnailUrl :: string
  filename :: string
  originalName :: string
  media_size :: nat
  mimetype :: string

record voice_data =
  audioUrl :: string
  duration :: "nat option"
  voice_size :: nat

datatype message_type =
    Text_message
  | Media_message string string string string nat string
  | Voice_message nat nat

record message =
  message_id :: string
  message_type :: message_type
  content :: string
  senderId :: socket_id
  timestamp :: time

record room =
  room_id :: room_id
  user1 :: user_info
  user2 :: user_info
  createdAt :: time
  messages :: "message list"
  distance :: "int option"

text \<open>Payloads of the events sent to clients.\<close>

record location_info =
  info_country :: string
  info_city :: string
  info_region :: string
  info_distance :: "int option"

record room_info =
  roomId :: room_id
  partnerId :: socket_id
  partner_nickname :: string
  partner_location :: "location_info option"

datatype call_kind = Voice | Video

datatype signal_kind = Offer | Answer | Ice_candidate

datatype emit =
    Joined_system socket_id "location option"
  | Error string
  | Partner_found room_info
  | Searching_partner
  | New_message message
  | Partner_location "location_info option"
  | Partner_disconnected
  | Chat_stopped
  | Incoming_call call_kind socket_id string
  | Call_accepted call_kind socket_id
  | Call_rejected call_kind socket_id
  | Call_ended call_kind
  | Webrtc_signal signal_kind string socket_id
  | Partner_typing_start
  | Partner_typing_stop

text \<open>A delivery is an event together with the connection that receives it.\<close>

type_synonym delivery = "socket_id \<times> emit"

text \<open>
  The per-connection closure of the connection handler: userLocation and clientIP are
  computed once, when the connection is accepted.
\<close>

record connection =
  userLocation :: "location option"
  clientIP :: string

text \<open>
  The shared state. The first three fields are the ChatManager: waitingUsers is an array,
  activeRooms and userSockets are JavaScript Maps, modelled as association lists in
  insertion order (set on an existing key replaces the value in place, set on a new key
  appends, delete removes), which is the order in which a Map is iterated.
  The last two fields are the part of Socket.IO that the handlers use: the connected sockets
  (io.sockets.sockets, here with each socket's closure) and the adapter's rooms, as the list
  of (room name, socket id) memberships in the order they were joined. Every socket is a
  member of the room named by its own id.
\<close>

record state =
  waitingUsers :: "user_info list"
  activeRooms :: "(room_id \<times> room) list"
  userSockets :: "(socket_id \<times> user_info) list"
  sockets :: "(socket_id \<times> connection) list"
  adapter :: "(string \<times> socket_id) list"

definition initial :: state where
  "initial = \<lparr>waitingUsers = [], activeRooms = [], userSockets = [], sockets = [], adapter = []\<rparr>"

section \<open>LocationService.calculateDistance\<close>

text \<open>
  The arithmetic is that of the real numbers: the rounding errors of floating point are not
  modelled. In particular, for nearly antipodal points the code can compute a value of a
  slightly above 1, whose square root of 1 - a is NaN, where the formula over the reals
  gives a distance; no theorem below evaluates the formula at such points. JavaScript
  truthiness of a number that may be null: null, undefined and 0 are
  falsy.
\<close>

definition falsy_number :: "real option \<Rightarrow> bool" where
  "falsy_number c = (case c of None \<Rightarrow> True | Some x \<Rightarrow> x = 0)"

definition atan2 :: "real \<Rightarrow> real \<Rightarrow> real" where
  "atan2 y x =
     (if 0 < x then arctan (y / x)
      else if x < 0 then (if 0 \<le> y then arctan (y / x) + pi else arctan (y / x) - pi)
      else if 0 < y then pi / 2
      else if y < 0 then - (pi / 2)
      else 0)"

text \<open>Math.round rounds to the nearest integer, halves towards plus infinity.\<close>

definition math_round :: "real \<Rightarrow> int" where
  "math_round x = \<lfloor>x + 1 / 2\<rfloor>"

definition haversine :: "real \<Rightarrow> real \<Rightarrow> real \<Rightarrow> real \<Rightarrow> real" where
  "haversine lat1 lon1 lat2 lon2 =
     (let R = 6371;
          dLat = (lat2 - lat1) * pi / 180;
          dLon = (lon2 - lon1) * pi / 180;
          a = sin (dLat / 2) * sin (dLat / 2) +
              cos (lat1 * pi / 180) * cos (lat2 * pi / 180) *
              sin (dLon / 2) * sin (dLon / 2);
          c = 2 * atan2 (sqrt a) (sqrt (1 - a))
      in R * c)"

definition calculateDistance ::
  "real option \<Rightarrow> real option \<Rightarrow> real option \<Rightarrow> real option \<Rightarrow> int option" where
  "calculateDistance lat1 lon1 lat2 lon2 =
     (if falsy_number lat1 \<or> falsy_number lon1 \<or> falsy_number lat2 \<or> falsy_number lon2
      then None
      else Some (math_round (haversine (the lat1) (the lon1) (the lat2) (the lon2))))"

section \<open>ChatManager\<close>

definition addWaitingUser :: "socket_id \<Rightarrow> user_info \<Rightarrow> time \<Rightarrow> state \<Rightarrow> state" where
  "addWaitingUser sid userInfo now s =
     s\<lparr>waitingUsers := waitingUsers s @ [userInfo\<lparr>joinedAt := now\<rparr>]\<rparr>"

definition removeWaitingUser :: "socket_id \<Rightarrow> state \<Rightarrow> state" where
  "removeWaitingUser sid s =
     s\<lparr>waitingUsers := filter (\<lambda>user. socketId user \<noteq> sid) (waitingUsers s)\<rparr>"

definition findMatch :: "socket_id \<Rightarrow> state \<Rightarrow> user_info option \<times> state" where
  "findMatch currentSocketId s =
     (case filter (\<lambda>user. socketId user \<noteq> currentSocketId) (waitingUsers s) of
        matchedUser # rest \<Rightarrow>
          (Some matchedUser,
           removeWaitingUser (socketId matchedUser) (removeWaitingUser currentSocketId s))
      | [] \<Rightarrow> (None, s))"

definition room_distance :: "user_info \<Rightarrow> user_info \<Rightarrow> int option" where
  "room_distance u1 u2 =
     (case location u1 of
        None \<Rightarrow> None
      | Some l1 \<Rightarrow>
          (case location u2 of
             None \<Rightarrow> None
           | Some l2 \<Rightarrow>
               calculateDistance (latitude l1) (longitude l1) (latitude l2) (longitude l2)))"

definition createRoom ::
  "user_info \<Rightarrow> user_info \<Rightarrow> room_id \<Rightarrow> time \<Rightarrow> state \<Rightarrow> room \<times> state" where
  "createRoom u1 u2 uuid now s =
     (let r = \<lparr>room_id = uuid, user1 = u1, user2 = u2, createdAt = now, messages = [],
                distance = room_distance u1 u2\<rparr>
      in (r, s\<lparr>activeRooms := AList.update uuid r (activeRooms s)\<rparr>))"

definition is_member :: "socket_id \<Rightarrow> room \<Rightarrow> bool" where
  "is_member sid r = (socketId (user1 r) = sid \<or> socketId (user2 r) = sid)"

definition getRoomBySocketId :: "state \<Rightarrow> socket_id \<Rightarrow> room option" where
  "getRoomBySocketId s sid = find (is_member sid) (map snd (activeRooms s))"

definition removeRoom :: "room_id \<Rightarrow> state \<Rightarrow> state" where
  "removeRoom rid s = s\<lparr>activeRooms := AList.delete rid (activeRooms s)\<rparr>"

definition getPartnerSocketId :: "state \<Rightarrow> room_id \<Rightarrow> socket_id \<Rightarrow> socket_id option" where
  "getPartnerSocketId s rid currentSocketId =
     (case map_of (activeRooms s) rid of
        None \<Rightarrow> None
      | Some r \<Rightarrow>
          if socketId (user1 r) = currentSocketId then Some (socketId (user2 r))
          else if socketId (user2 r) = currentSocketId then Some (socketId (user1 r))
          else None)"

definition getPartnerInfo :: "state \<Rightarrow> room_id \<Rightarrow> socket_id \<Rightarrow> user_info option" where
  "getPartnerInfo s rid currentSocketId =
     (case map_of (activeRooms s) rid of
        None \<Rightarrow> None
      | Some r \<Rightarrow>
          if socketId (user1 r) = currentSocketId then Some (user2 r)
          else if socketId (user2 r) = currentSocketId then Some (user1 r)
          else None)"

definition addMessageToRoom :: "room_id \<Rightarrow> message \<Rightarrow> time \<Rightarrow> state \<Rightarrow> state" where
  "addMessageToRoom rid m now s =
     (case map_of (activeRooms s) rid of
        None \<Rightarrow> s
      | Some r \<Rightarrow>
          s\<lparr>activeRooms :=
              AList.update rid (r\<lparr>messages := messages r @ [m\<lparr>timestamp := now\<rparr>]\<rparr>)
                (activeRooms s)\<rparr>)"

section \<open>The Socket.IO operations used by the handlers\<close>

definition room_sockets :: "state \<Rightarrow> string \<Rightarrow> socket_id list" where
  "room_sockets s name = map snd (filter (\<lambda>p. fst p = name) (adapter s))"

definition socket_join :: "socket_id \<Rightarrow> string \<Rightarrow> state \<Rightarrow> state" where
  "socket_join sid name s =
     (if (name, sid) \<in> set (adapter s) then s
      else s\<lparr>adapter := adapter s @ [(name, sid)]\<rparr>)"

definition socket_leave :: "socket_id \<Rightarrow> string \<Rightarrow> state \<Rightarrow> state" where
  "socket_leave sid name s = s\<lparr>adapter := filter (\<lambda>p. p \<noteq> (name, sid)) (adapter s)\<rparr>"

text \<open>socket.emit(e): the event goes to the socket itself.\<close>

definition socket_emit :: "socket_id \<Rightarrow> emit \<Rightarrow> delivery list" where
  "socket_emit sid e = [(sid, e)]"

text \<open>io.to(name).emit(e): the event goes to every socket that is in the room name.\<close>

definition io_to_emit :: "state \<Rightarrow> string \<Rightarrow> emit \<Rightarrow> delivery list" where
  "io_to_emit s name e = map (\<lambda>sid. (sid, e)) (room_sockets s name)"

section \<open>The socket handlers\<close>

text \<open>x || 'Anonymous' on a nickname: null, undefined and the empty string are falsy.\<close>

definition nickname_or_anonymous :: "string option \<Rightarrow> string" where
  "nickname_or_anonymous n =
     (case n of None \<Rightarrow> ''Anonymous'' | Some x \<Rightarrow> if x = [] then ''Anonymous'' else x)"

text \<open>u.location ? {country, city, region, distance: room.distance} : null\<close>

definition location_summary :: "location option \<Rightarrow> int option \<Rightarrow> location_info option" where
  "location_summary l d =
     (case l of
        None \<Rightarrow> None
      | Some x \<Rightarrow>
          Some \<lparr>info_country = country x, info_city = city x, info_region = region x,
                info_distance = d\<rparr>)"

definition on_join_system ::
  "connection \<Rightarrow> socket_id \<Rightarrow> string option \<Rightarrow> time \<Rightarrow> state \<Rightarrow> state \<times> delivery list" where
  "on_join_system c sid nick now s =
     (let userWithLocation =
            \<lparr>socketId = sid, nickname = nick, joinedAt = now, location = userLocation c,
             ip = clientIP c\<rparr>
      in (s\<lparr>userSockets := AList.update sid userWithLocation (userSockets s)\<rparr>,
          socket_emit sid (Joined_system sid (userLocation c))))"

definition on_find_partner ::
  "socket_id \<Rightarrow> room_id \<Rightarrow> time \<Rightarrow> state \<Rightarrow> state \<times> delivery list" where
  "on_find_partner sid uuid now s =
     (case map_of (userSockets s) sid of
        None \<Rightarrow> (s, socket_emit sid (Error ''User not found in system''))
      | Some userInfo \<Rightarrow>
          (case getRoomBySocketId s sid of
             Some existingRoom \<Rightarrow> (s, socket_emit sid (Error ''Already in a chat room''))
           | None \<Rightarrow>
               (case findMatch sid s of
                  (Some match, s1) \<Rightarrow>
                    (case createRoom userInfo match uuid now s1 of
                       (r, s2) \<Rightarrow>
                         let s3 = socket_join sid (room_id r) s2;
                             s4 = (if socketId match \<in> fst ` set (sockets s3)
                                   then socket_join (socketId match) (room_id r) s3 else s3);
                             roomInfo =
                               \<lparr>roomId = room_id r, partnerId = socketId match,
                                partner_nickname = nickname_or_anonymous (nickname match),
                                partner_location =
                                  location_summary (location match) (distance r)\<rparr>;
                             partnerRoomInfo =
                               \<lparr>roomId = room_id r, partnerId = sid,
                                partner_nickname = nickname_or_anonymous (nickname userInfo),
                                partner_location =
                                  location_summary (location userInfo) (distance r)\<rparr>
                         in (s4, socket_emit sid (Partner_found roomInfo) @
                                 io_to_emit s4 (socketId match) (Partner_found partnerRoomInfo)))
                | (None, s1) \<Rightarrow>
                    (addWaitingUser sid userInfo now s1, socket_emit sid Searching_partner))))"

text \<open>
  The three message handlers differ only in the message they build; the message is built
  with one reading of the clock and stored with another.
\<close>

definition send_to_room ::
  "socket_id \<Rightarrow> message \<Rightarrow> time \<Rightarrow> state \<Rightarrow> state \<times> delivery list" where
  "send_to_room sid m now s =
     (case getRoomBySocketId s sid of
        None \<Rightarrow> (s, socket_emit sid (Error ''Not in any chat room''))
      | Some r \<Rightarrow>
          (let s1 = addMessageToRoom (room_id r) m now s
           in (s1, io_to_emit s1 (room_id r) (New_message m))))"

definition on_send_media_message ::
  "socket_id \<Rightarrow> media_data \<Rightarrow> string \<Rightarrow> time \<Rightarrow> time \<Rightarrow> state \<Rightarrow> state \<times> delivery list" where
  "on_send_media_message sid d uuid now now' s =
     send_to_room sid
       \<lparr>message_id = uuid,
        message_type = Media_message (mediaType d) (thumbnailUrl d) (filename d)
                         (originalName d) (media_size d) (mimetype d),
        content = url d, senderId = sid, timestamp = now\<rparr> now' s"

definition on_send_message ::
  "socket_id \<Rightarrow> string \<Rightarrow> string \<Rightarrow> time \<Rightarrow> time \<Rightarrow> state \<Rightarrow> state \<times> delivery list" where
  "on_send_message sid text uuid now now' s =
     send_to_room sid
       \<lparr>message_id = uuid, message_type = Text_message, content = text, senderId = sid,
        timestamp = now\<rparr> now' s"

definition on_send_voice_message ::
  "socket_id \<Rightarrow> voice_data \<Rightarrow> string \<Rightarrow> time \<Rightarrow> time \<Rightarrow> state \<Rightarrow> state \<times> delivery list" where
  "on_send_voice_message sid d uuid now now' s =
     send_to_room sid
       \<lparr>message_id = uuid,
        message_type =
          Voice_message (case duration d of None \<Rightarrow> 0 | Some n \<Rightarrow> n) (voice_size d),
        content = audioUrl d, senderId = sid, timestamp = now\<rparr> now' s"

definition on_get_partner_location :: "socket_id \<Rightarrow> state \<Rightarrow> state \<times> delivery list" where
  "on_get_partner_location sid s =
     (case getRoomBySocketId s sid of
        None \<Rightarrow> (s, socket_emit sid (Error ''Not in any chat room''))
      | Some r \<Rightarrow>
          (case getPartnerInfo s (room_id r) sid of
             None \<Rightarrow> (s, socket_emit sid (Partner_location None))
           | Some partnerInfo \<Rightarrow>
               (s, socket_emit sid
                     (Partner_location (location_summary (location partnerInfo) (distance r))))))"

text \<open>
  if (partnerSocketId) io.to(partnerSocketId).emit(e): a socket id that is null or the empty
  string is falsy.
\<close>

definition emit_to_partner :: "state \<Rightarrow> room \<Rightarrow> socket_id \<Rightarrow> emit \<Rightarrow> delivery list" where
  "emit_to_partner s r sid e =
     (case getPartnerSocketId s (room_id r) sid of
        None \<Rightarrow> []
      | Some partnerSocketId \<Rightarrow>
          if partnerSocketId = [] then [] else io_to_emit s partnerSocketId e)"

definition on_stop_chat :: "socket_id \<Rightarrow> state \<Rightarrow> state \<times> delivery list" where
  "on_stop_chat sid s =
     (let s1 = removeWaitingUser sid s
      in case getRoomBySocketId s1 sid of
           None \<Rightarrow> (s1, socket_emit sid Chat_stopped)
         | Some r \<Rightarrow>
             (let out = emit_to_partner s1 r sid Partner_disconnected;
                  s2 = removeRoom (room_id r) s1;
                  s3 = socket_leave sid (room_id r) s2
              in (s3, out @ socket_emit sid Chat_stopped)))"

text \<open>
  The voice and the video handlers are the same up to the names of the events; the kind of
  call is a parameter here.
\<close>

definition on_initiate_call :: "call_kind \<Rightarrow> socket_id \<Rightarrow> state \<Rightarrow> state \<times> delivery list" where
  "on_initiate_call k sid s =
     (case getRoomBySocketId s sid of
        None \<Rightarrow> (s, socket_emit sid (Error ''Not in any chat room''))
      | Some r \<Rightarrow>
          (s, emit_to_partner s r sid
                (Incoming_call k sid
                   (nickname_or_anonymous
                      (case map_of (userSockets s) sid of
                         None \<Rightarrow> None
                       | Some u \<Rightarrow> nickname u)))))"

definition on_accept_call ::
  "call_kind \<Rightarrow> socket_id \<Rightarrow> socket_id \<Rightarrow> state \<Rightarrow> state \<times> delivery list" where
  "on_accept_call k sid callerId s = (s, io_to_emit s callerId (Call_accepted k sid))"

definition on_reject_call ::
  "call_kind \<Rightarrow> socket_id \<Rightarrow> socket_id \<Rightarrow> state \<Rightarrow> state \<times> delivery list" where
  "on_reject_call k sid callerId s = (s, io_to_emit s callerId (Call_rejected k sid))"

text \<open>
  end-voice-call, end-video-call, the three webrtc events and the two typing events have the
  same body: forward one event to the partner if the sender is in a room, and do nothing
  otherwise.
\<close>

definition forward_to_partner :: "socket_id \<Rightarrow> emit \<Rightarrow> state \<Rightarrow> state \<times> delivery list" where
  "forward_to_partner sid e s =
     (case getRoomBySocketId s sid of
        None \<Rightarrow> (s, [])
      | Some r \<Rightarrow> (s, emit_to_partner s r sid e))"

definition on_end_call :: "call_kind \<Rightarrow> socket_id \<Rightarrow> state \<Rightarrow> state \<times> delivery list" where
  "on_end_call k sid s = forward_to_partner sid (Call_ended k) s"

definition on_webrtc ::
  "signal_kind \<Rightarrow> socket_id \<Rightarrow> string \<Rightarrow> state \<Rightarrow> state \<times> delivery list" where
  "on_webrtc k sid payload s = forward_to_partner sid (Webrtc_signal k payload sid) s"

definition on_typing_start :: "socket_id \<Rightarrow> state \<Rightarrow> state \<times> delivery list" where
  "on_typing_start sid s = forward_to_partner sid Partner_typing_start s"

definition on_typing_stop :: "socket_id \<Rightarrow> state \<Rightarrow> state \<times> delivery list" where
  "on_typing_stop sid s = forward_to_partner sid Partner_typing_stop s"

definition on_disconnect :: "socket_id \<Rightarrow> state \<Rightarrow> state \<times> delivery list" where
  "on_disconnect sid s =
     (let s1 = removeWaitingUser sid s;
          s2 = s1\<lparr>userSockets := AList.delete sid (userSockets s1)\<rparr>
      in case getRoomBySocketId s2 sid of
           None \<Rightarrow> (s2, [])
         | Some r \<Rightarrow>
             (let out = emit_to_partner s2 r sid Partner_disconnected
              in (removeRoom (room_id r) s2, out)))"

section \<open>Events and runs\<close>

text \<open>
  What a client can send, with the values the handler reads from its environment
  (uuidv4() and Date.now()).
\<close>

datatype request =
    Join_system "string option" time
  | Find_partner room_id time
  | Send_media_message media_data string time time
  | Send_message string string time time
  | Send_voice_message voice_data string time time
  | Get_partner_location
  | Stop_chat
  | Initiate_call call_kind
  | Accept_call call_kind socket_id
  | Reject_call call_kind socket_id
  | End_call call_kind
  | Webrtc signal_kind string
  | Typing_start
  | Typing_stop

datatype event =
    Connect socket_id connection
  | Request socket_id request
  | Disconnect socket_id

fun handle :: "connection \<Rightarrow> socket_id \<Rightarrow> request \<Rightarrow> state \<Rightarrow> state \<times> delivery list" where
  "handle c sid (Join_system nick now) s = on_join_system c sid nick now s"
| "handle c sid (Find_partner uuid now) s = on_find_partner sid uuid now s"
| "handle c sid (Send_media_message d uuid now now') s = on_send_media_message sid d uuid now now' s"
| "handle c sid (Send_message text uuid now now') s = on_send_message sid text uuid now now' s"
| "handle c sid (Send_voice_message d uuid now now') s = on_send_voice_message sid d uuid now now' s"
| "handle c sid Get_partner_location s = on_get_partner_location sid s"
| "handle c sid Stop_chat s = on_stop_chat sid s"
| "handle c sid (Initiate_call k) s = on_initiate_call k sid s"
| "handle c sid (Accept_call k callerId) s = on_accept_call k sid callerId s"
| "handle c sid (Reject_call k callerId) s = on_reject_call k sid callerId s"
| "handle c sid (End_call k) s = on_end_call k sid s"
| "handle c sid (Webrtc k payload) s = on_webrtc k sid payload s"
| "handle c sid Typing_start s = on_typing_start sid s"
| "handle c sid Typing_stop s = on_typing_stop sid s"

text \<open>
  One event of the server's event loop. A new connection registers the handlers and joins
  the room named by its id. A request runs its handler, for a connected socket only. On
  disconnect Socket.IO first takes the socket out of every room and out of the connected
  sockets, then runs the disconnect handler.
\<close>

fun step :: "state \<Rightarrow> event \<Rightarrow> state \<times> delivery list" where
  "step s (Connect sid c) =
     (if sid \<in> fst ` set (sockets s) then (s, [])
      else (socket_join sid sid (s\<lparr>sockets := sockets s @ [(sid, c)]\<rparr>), []))"
| "step s (Request sid req) =
     (case map_of (sockets s) sid of
        None \<Rightarrow> (s, [])
      | Some c \<Rightarrow> handle c sid req s)"
| "step s (Disconnect sid) =
     (case map_of (sockets s) sid of
        None \<Rightarrow> (s, [])
      | Some c \<Rightarrow>
          on_disconnect sid
            (s\<lparr>sockets := AList.delete sid (sockets s),
               adapter := filter (\<lambda>p. snd p \<noteq> sid) (adapter s)\<rparr>))"

fun run :: "state \<Rightarrow> event list \<Rightarrow> state" where
  "run s [] = s"
| "run s (e # es) = run (fst (step s e)) es"

text \<open>
  What the environment guarantees about generated identifiers: a new socket id is not
  empty and is not the name of a room of the adapter, and the id that uuidv4 returns to
  find-partner is not the name of a room of the adapter either.
\<close>

fun event_ok :: "state \<Rightarrow> event \<Rightarrow> bool" where
  "event_ok s (Connect sid c) = (sid \<noteq> [] \<and> sid \<notin> fst ` set (adapter s))"
| "event_ok s (Request sid (Find_partner uuid now)) = (uuid \<notin> fst ` set (adapter s))"
| "event_ok s e = True"

fun admissible :: "state \<Rightarrow> event list \<Rightarrow> bool" where
  "admissible s [] = True"
| "admissible s (e # es) = (event_ok s e \<and> admissible (fst (step s e)) es)"

section \<open>The state after find-partner has found a match\<close>

text \<open>
  The room that createRoom builds for the requester's profile u and the waiting entry m, and
  the state that the find-partner handler leaves when m is the match: both ids are out of
  the queue, the room is stored, and the requester and (if connected) the match have joined
  the adapter room named by the room id.
\<close>

definition matched_room :: "user_info \<Rightarrow> user_info \<Rightarrow> room_id \<Rightarrow> time \<Rightarrow> room" where
  "matched_room u m uuid now =
     \<lparr>room_id = uuid, user1 = u, user2 = m, createdAt = now, messages = [],
      distance = room_distance u m\<rparr>"

definition matched_state :: "socket_id \<Rightarrow> user_info \<Rightarrow> user_info \<Rightarrow> room_id \<Rightarrow> time \<Rightarrow> state \<Rightarrow> state" where
  "matched_state sid u m uuid now s =
     (let s2 = s\<lparr>waitingUsers :=
                  filter (\<lambda>w. socketId w \<noteq> socketId m)
                    (filter (\<lambda>w. socketId w \<noteq> sid) (waitingUsers s)),
                activeRooms := AList.update uuid (matched_room u m uuid now) (activeRooms s)\<rparr>;
          s3 = socket_join sid uuid s2
      in if socketId m \<in> fst ` set (sockets s) then socket_join (socketId m) uuid s3 else s3)"

section \<open>Invariants of the shared state\<close>

text \<open>The socket ids of the members of all active rooms, room by room.\<close>

definition members_of :: "(room_id \<times> room) list \<Rightarrow> socket_id list" where
  "members_of rs = concat (map (\<lambda>p. [socketId (user1 (snd p)), socketId (user2 (snd p))]) rs)"

definition room_members :: "state \<Rightarrow> socket_id list" where
  "room_members s = members_of (activeRooms s)"

text \<open>
  activeRooms is a Map from each room's own id, and no socket id occurs twice among the
  members of the rooms.
\<close>

definition rooms_inv :: "state \<Rightarrow> bool" where
  "rooms_inv s \<longleftrightarrow>
     distinct (map fst (activeRooms s)) \<and>
     (\<forall>p \<in> set (activeRooms s). room_id (snd p) = fst p) \<and>
     distinct (room_members s)"

text \<open>userSockets is a Map from each profile's own socket id.\<close>

definition registry_inv :: "state \<Rightarrow> bool" where
  "registry_inv s \<longleftrightarrow>
     distinct (map fst (userSockets s)) \<and>
     (\<forall>p \<in> set (userSockets s). socketId (snd p) = fst p)"

text \<open>A waiting entry belongs to a registered connection that is in no room.\<close>

definition waiting_inv :: "state \<Rightarrow> bool" where
  "waiting_inv s \<longleftrightarrow>
     (\<forall>w \<in> set (waitingUsers s).
        socketId w \<notin> set (room_members s) \<and> socketId w \<in> fst ` set (userSockets s))"

definition members_inv :: "state \<Rightarrow> bool" where
  "members_inv s \<longleftrightarrow> set (room_members s) \<subseteq> fst ` set (userSockets s)"

definition chat_inv :: "state \<Rightarrow> bool" where
  "chat_inv s \<longleftrightarrow> rooms_inv s \<and> registry_inv s \<and> waiting_inv s \<and> members_inv s"

text \<open>
  The transport side: registered connections are connected, socket ids are not empty, the
  adapter room named by a connected socket's id holds that socket alone, and the adapter room
  named by an active room's id holds the room's two members.
\<close>

definition transport_inv :: "state \<Rightarrow> bool" where
  "transport_inv s \<longleftrightarrow>
     fst ` set (userSockets s) \<subseteq> fst ` set (sockets s) \<and>
     [] \<notin> fst ` set (sockets s) \<and>
     (\<forall>c \<in> set (sockets s). room_sockets s (fst c) = [fst c]) \<and>
     (\<forall>p \<in> set (activeRooms s).
        room_sockets s (fst p) = [socketId (user1 (snd p)), socketId (user2 (snd p))])"

section \<open>Example values\<close>

definition example_connection :: connection where
  "example_connection = \<lparr>userLocation = None, clientIP = ''10.0.0.1''\<rparr>"

definition example_user :: "socket_id \<Rightarrow> user_info" where
  "example_user sid =
     \<lparr>socketId = sid, nickname = None, joinedAt = 0, location = None, ip = ''10.0.0.1''\<rparr>"

definition example_queue :: "socket_id list \<Rightarrow> state" where
  "example_queue sids = initial\<lparr>waitingUsers := map example_user sids\<rparr>"

text \<open>Two connections that have joined the system.\<close>

definition two_joined :: "event list" where
  "two_joined =
     [Connect ''a'' example_connection, Connect ''b'' example_connection,
      Request ''a'' (Join_system (Some ''alice'') 1), Request ''b'' (Join_system None 2)]"

text \<open>
  Four connections that have joined the system and were paired two by two: b finds a
  waiting, d finds c waiting.
\<close>

definition four_paired :: "event list" where
  "four_paired =
     [Connect ''a'' example_connection, Connect ''b'' example_connection,
      Connect ''c'' example_connection, Connect ''d'' example_connection,
      Request ''a'' (Join_system (Some ''alice'') 1), Request ''b'' (Join_system None 2),
      Request ''c'' (Join_system (Some ''carol'') 3), Request ''d'' (Join_system (Some []) 4),
      Request ''a'' (Find_partner ''r0'' 5), Request ''b'' (Find_partner ''r1'' 6),
      Request ''c'' (Find_partner ''r2'' 7), Request ''d'' (Find_partner ''r3'' 8)]"

definition example_profile :: "socket_id \<Rightarrow> string option \<Rightarrow> time \<Rightarrow> user_info" where
  "example_profile sid nick t =
     \<lparr>socketId = sid, nickname = nick, joinedAt = t, location = None, ip = ''10.0.0.1''\<rparr>"

text \<open>
  Two geolocated connections that have joined the system, a in Lima and b in Nairobi, the
  first of which is waiting.
\<close>

definition lima :: location where
  "lima = \<lparr>country = ''Peru'', region = ''Lima'', city = ''Lima'',
            latitude = Some (- 12), longitude = Some (- 77)\<rparr>"

definition nairobi :: location where
  "nairobi = \<lparr>country = ''Kenya'', region = ''Nairobi'', city = ''Nairobi'',
               latitude = Some (- 1), longitude = Some 37\<rparr>"

definition located_profile :: "socket_id \<Rightarrow> string option \<Rightarrow> time \<Rightarrow> location \<Rightarrow> user_info" where
  "located_profile sid nick t l =
     \<lparr>socketId = sid, nickname = nick, joinedAt = t, location = Some l, ip = ''10.0.0.1''\<rparr>"

definition located_waiting :: "event list" where
  "located_waiting =
     [Connect ''a'' \<lparr>userLocation = Some lima, clientIP = ''10.0.0.1''\<rparr>,
      Connect ''b'' \<lparr>userLocation = Some nairobi, clientIP = ''10.0.0.1''\<rparr>,
      Request ''a'' (Join_system (Some ''alice'') 1), Request ''b'' (Join_system None 2),
      Request ''a'' (Find_partner ''r0'' 3)]"

text \<open>The two rooms that exist after the run four_paired.\<close>

definition room_ba :: room where
  "room_ba =
     \<lparr>room_id = ''r1'', user1 = example_profile ''b'' None 2,
      user2 = example_profile ''a'' (Some ''alice'') 5, createdAt = 6, messages = [],
      distance = None\<rparr>"

definition room_dc :: room where
  "room_dc =
     \<lparr>room_id = ''r3'', user1 = example_profile ''d'' (Some []) 4,
      user2 = example_profile ''c'' (Some ''carol'') 7, createdAt = 8, messages = [],
      distance = None\<rparr>"

section \<open>Evaluating the model on concrete inputs\<close>

lemmas manager_defs =
  addWaitingUser_def removeWaitingUser_def findMatch_def room_distance_def createRoom_def
  is_member_def getRoomBySocketId_def removeRoom_def getPartnerSocketId_def getPartnerInfo_def
  addMessageToRoom_def

lemmas transport_defs =
  room_sockets_def socket_join_def socket_leave_def socket_emit_def io_to_emit_def

lemmas handler_defs =
  nickname_or_anonymous_def location_summary_def on_join_system_def on_find_partner_def
  send_to_room_def on_send_media_message_def on_send_message_def on_send_voice_message_def
  on_get_partner_location_def emit_to_partner_def on_stop_chat_def on_initiate_call_def
  on_accept_call_def on_reject_call_def forward_to_partner_def on_end_call_def on_webrtc_def
  on_typing_start_def on_typing_stop_def on_disconnect_def

lemmas example_defs =
  initial_def example_connection_def example_user_def example_queue_def two_joined_def
  four_paired_def example_profile_def room_ba_def room_dc_def
  located_profile_def located_waiting_def

lemmas eval_defs = manager_defs transport_defs handler_defs example_defs Let_def

lemma two_joined_state:
  "run initial two_joined =
     \<lparr>waitingUsers = [], activeRooms = [],
      userSockets =
        [(''a'', \<lparr>socketId = ''a'', nickname = Some ''alice'', joinedAt = 1, location = None,
                  ip = ''10.0.0.1''\<rparr>),
         (''b'', \<lparr>socketId = ''b'', nickname = None, joinedAt = 2, location = None,
                  ip = ''10.0.0.1''\<rparr>)],
      sockets = [(''a'', example_connection), (''b'', example_connection)],
      adapter = [(''a'', ''a''), (''b'', ''b'')]\<rparr>"
  by (simp add: eval_defs)

section \<open>The waiting queue\<close>

lemma find_filter_hd:
  "find P xs = (case filter P xs of [] \<Rightarrow> None | x # rest \<Rightarrow> Some x)"
  by (induction xs) auto

lemma removeWaitingUser_absent:
  assumes "sid \<notin> socketId ` set (waitingUsers s)"
  shows "removeWaitingUser sid s = s"
proof -
  from assms have "filter (\<lambda>user. socketId user \<noteq> sid) (waitingUsers s) = waitingUsers s"
    by (auto simp: filter_id_conv)
  then show ?thesis
    by (simp add: removeWaitingUser_def)
qed

text \<open>
  Claim C8. findMatch returns the earliest entry of the queue whose socket id differs from
  the requester's (everything before it in the queue belongs to the requester), never an
  entry of the requester, and the returned entry is no longer in the queue afterwards; it
  returns nothing exactly when every entry belongs to the requester, and then the state is
  unchanged.
\<close>

theorem findMatch_fifo:
  "fst (findMatch cur s) = find (\<lambda>user. socketId user \<noteq> cur) (waitingUsers s) \<and>
   (\<forall>m. fst (findMatch cur s) = Some m \<longrightarrow>
      socketId m \<noteq> cur \<and>
      (\<exists>before after. waitingUsers s = before @ m # after \<and>
         (\<forall>user \<in> set before. socketId user = cur)) \<and>
      m \<notin> set (waitingUsers (snd (findMatch cur s)))) \<and>
   (fst (findMatch cur s) = None \<longrightarrow>
      (\<forall>user \<in> set (waitingUsers s). socketId user = cur) \<and> snd (findMatch cur s) = s)"
proof (intro conjI allI impI)
  show eq: "fst (findMatch cur s) = find (\<lambda>user. socketId user \<noteq> cur) (waitingUsers s)"
    by (simp add: findMatch_def find_filter_hd split: list.split)
  {
    fix m assume m: "fst (findMatch cur s) = Some m"
    with eq have f: "find (\<lambda>user. socketId user \<noteq> cur) (waitingUsers s) = Some m" by simp
    then show "socketId m \<noteq> cur" by (auto simp: find_Some_iff)
    from f obtain i where i: "i < length (waitingUsers s)" "waitingUsers s ! i = m"
      "\<forall>j<i. \<not> socketId (waitingUsers s ! j) \<noteq> cur"
      by (auto simp: find_Some_iff)
    have "waitingUsers s = take i (waitingUsers s) @ m # drop (Suc i) (waitingUsers s)"
      using id_take_nth_drop[OF i(1)] i(2) by simp
    moreover have "\<forall>user \<in> set (take i (waitingUsers s)). socketId user = cur"
      using i by (auto simp: in_set_conv_nth)
    ultimately show "\<exists>before after. waitingUsers s = before @ m # after \<and>
         (\<forall>user \<in> set before. socketId user = cur)" by blast
    from m show "m \<notin> set (waitingUsers (snd (findMatch cur s)))"
      by (auto simp: findMatch_def removeWaitingUser_def split: list.splits)
  }
  {
    assume n: "fst (findMatch cur s) = None"
    with eq have "find (\<lambda>user. socketId user \<noteq> cur) (waitingUsers s) = None" by simp
    then show "\<forall>user \<in> set (waitingUsers s). socketId user = cur"
      by (auto simp: find_None_iff)
    from n show "snd (findMatch cur s) = s"
      by (auto simp: findMatch_def split: list.splits)
  }
qed

theorem findMatch_fifo_witness:
  "fst (findMatch ''a'' (example_queue [''a'', ''b'', ''c''])) = Some (example_user ''b'') \<and>
   socketId (example_user ''b'') \<noteq> ''a'' \<and>
   example_user ''b'' \<notin>
     set (waitingUsers (snd (findMatch ''a'' (example_queue [''a'', ''b'', ''c''])))) \<and>
   fst (findMatch ''a'' (example_queue [''a''])) = None \<and>
   snd (findMatch ''a'' (example_queue [''a''])) = example_queue [''a'']"
proof -
  have some: "fst (findMatch ''a'' (example_queue [''a'', ''b'', ''c''])) = Some (example_user ''b'')"
    by (simp add: eval_defs)
  have none: "fst (findMatch ''a'' (example_queue [''a''])) = None"
    by (simp add: eval_defs)
  show ?thesis
    using some none
      findMatch_fifo [of "''a''" "example_queue [''a'', ''b'', ''c'']"]
      findMatch_fifo [of "''a''" "example_queue [''a'']"]
    by blast
qed

text \<open>
  Claim C9. removeWaitingUser leaves no entry with the given socket id in the queue, however
  many there were, keeps every entry of another socket id, and changes nothing when the
  queue has no entry with that id.
\<close>

theorem removeWaitingUser_removes_every_entry:
  "sid \<notin> socketId ` set (waitingUsers (removeWaitingUser sid s)) \<and>
   (\<forall>user \<in> set (waitingUsers s). socketId user \<noteq> sid \<longrightarrow>
      user \<in> set (waitingUsers (removeWaitingUser sid s))) \<and>
   (sid \<notin> socketId ` set (waitingUsers s) \<longrightarrow> removeWaitingUser sid s = s)"
  using removeWaitingUser_absent [of sid s]
  by (auto simp: removeWaitingUser_def)

theorem removeWaitingUser_removes_every_entry_witness:
  "waitingUsers (removeWaitingUser ''a'' (example_queue [''a'', ''b'', ''a''])) =
     [example_user ''b''] \<and>
   ''c'' \<notin> socketId ` set (waitingUsers (example_queue [''a'', ''b'', ''a''])) \<and>
   removeWaitingUser ''c'' (example_queue [''a'', ''b'', ''a'']) =
     example_queue [''a'', ''b'', ''a'']"
proof -
  have absent: "''c'' \<notin> socketId ` set (waitingUsers (example_queue [''a'', ''b'', ''a'']))"
    by (simp add: eval_defs)
  have removed: "waitingUsers (removeWaitingUser ''a'' (example_queue [''a'', ''b'', ''a''])) =
     [example_user ''b'']"
    by (simp add: eval_defs)
  show ?thesis
    using absent removed
      removeWaitingUser_removes_every_entry [of "''c''" "example_queue [''a'', ''b'', ''a'']"]
    by blast
qed

section \<open>stop-chat\<close>

lemma emit_to_partner_payload:
  "d \<in> set (emit_to_partner s r sid e) \<Longrightarrow> snd d = e"
  by (auto simp: emit_to_partner_def io_to_emit_def split: option.splits if_splits)

text \<open>
  Claim C10. In every state stop-chat delivers exactly one chat-stopped event, and delivers
  it to the requester. When the requester has no waiting entry and is in no room, stop-chat
  leaves the whole state unchanged and delivers nothing else.
\<close>

theorem stop_chat_emits_chat_stopped:
  "filter (\<lambda>d. snd d = Chat_stopped) (snd (on_stop_chat sid s)) = [(sid, Chat_stopped)] \<and>
   (sid \<notin> socketId ` set (waitingUsers s) \<and> getRoomBySocketId s sid = None \<longrightarrow>
      on_stop_chat sid s = (s, [(sid, Chat_stopped)]))"
proof -
  have "filter (\<lambda>d. snd d = Chat_stopped) (emit_to_partner s1 r sid Partner_disconnected) = []"
    for s1 r
    by (auto simp: filter_empty_conv dest: emit_to_partner_payload)
  then show ?thesis
    using removeWaitingUser_absent [of sid s]
    by (auto simp: on_stop_chat_def Let_def socket_emit_def split: option.splits)
qed

theorem stop_chat_emits_chat_stopped_witness:
  "''a'' \<notin> socketId ` set (waitingUsers (run initial two_joined)) \<and>
   getRoomBySocketId (run initial two_joined) ''a'' = None \<and>
   on_stop_chat ''a'' (run initial two_joined) = (run initial two_joined, [(''a'', Chat_stopped)])"
proof -
  have idle: "''a'' \<notin> socketId ` set (waitingUsers (run initial two_joined)) \<and>
      getRoomBySocketId (run initial two_joined) ''a'' = None"
    by (simp add: two_joined_state) (simp add: eval_defs)
  show ?thesis
    using idle stop_chat_emits_chat_stopped [of "''a''" "run initial two_joined"]
    by blast
qed

section \<open>The distance of a room\<close>

text \<open>
  Bounds on the arc tangent and, by Machin's formula, on pi: enough to evaluate the
  haversine formula of the code for two points one degree apart on the equator.
\<close>

lemma arctan_upper1:
  assumes "0 \<le> x"
  shows "arctan x \<le> x"
proof -
  have "(\<lambda>t. t - arctan t) 0 \<le> (\<lambda>t. t - arctan t) x"
  proof (rule DERIV_nonneg_imp_nondecreasing [OF assms])
    fix t :: real
    assume "0 \<le> t" "t \<le> x"
    have "((\<lambda>t. t - arctan t) has_real_derivative 1 - inverse (1 + t\<^sup>2)) (at t)"
      by (auto intro!: derivative_eq_intros)
    moreover have "0 \<le> 1 - inverse (1 + t\<^sup>2)"
      by (simp add: inverse_le_1_iff)
    ultimately have "((\<lambda>t. t - arctan t) has_real_derivative 1 - inverse (1 + t\<^sup>2)) (at t) \<and>
          0 \<le> 1 - inverse (1 + t\<^sup>2)"
      by simp
    then show "\<exists>y. ((\<lambda>t. t - arctan t) has_real_derivative y) (at t) \<and> 0 \<le> y"
      by (rule exI)
  qed
  then show ?thesis by simp
qed

lemma arctan_lower3:
  assumes "0 \<le> x"
  shows "x - x ^ 3 / 3 \<le> arctan x"
proof -
  have "(\<lambda>t. arctan t - t + t ^ 3 / 3) 0 \<le> (\<lambda>t. arctan t - t + t ^ 3 / 3) x"
  proof (rule DERIV_nonneg_imp_nondecreasing [OF assms])
    fix t :: real
    assume "0 \<le> t" "t \<le> x"
    have "((\<lambda>t. arctan t - t + t ^ 3 / 3) has_real_derivative
             inverse (1 + t\<^sup>2) - 1 + t\<^sup>2) (at t)"
      by (auto intro!: derivative_eq_intros)
    moreover have "inverse (1 + t\<^sup>2) - 1 + t\<^sup>2 = t ^ 4 / (1 + t\<^sup>2)"
    proof -
      have "0 < 1 + t\<^sup>2" by (simp add: add_pos_nonneg)
      then have "1 + t\<^sup>2 \<noteq> 0" by simp
      then show ?thesis by (simp add: field_simps power2_eq_square power4_eq_xxxx)
    qed
    moreover have "0 \<le> t ^ 4 / (1 + t\<^sup>2)"
      by (intro divide_nonneg_nonneg) (auto intro: add_nonneg_nonneg)
    ultimately have "((\<lambda>t. arctan t - t + t ^ 3 / 3) has_real_derivative
             inverse (1 + t\<^sup>2) - 1 + t\<^sup>2) (at t) \<and> 0 \<le> inverse (1 + t\<^sup>2) - 1 + t\<^sup>2"
      by simp
    then show "\<exists>y. ((\<lambda>t. arctan t - t + t ^ 3 / 3) has_real_derivative y) (at t) \<and> 0 \<le> y"
      by (rule exI)
  qed
  then show ?thesis by simp
qed

lemma arctan_upper5:
  assumes "0 \<le> x"
  shows "arctan x \<le> x - x ^ 3 / 3 + x ^ 5 / 5"
proof -
  have "(\<lambda>t. t - t ^ 3 / 3 + t ^ 5 / 5 - arctan t) 0 \<le>
        (\<lambda>t. t - t ^ 3 / 3 + t ^ 5 / 5 - arctan t) x"
  proof (rule DERIV_nonneg_imp_nondecreasing [OF assms])
    fix t :: real
    assume "0 \<le> t" "t \<le> x"
    have "((\<lambda>t. t - t ^ 3 / 3 + t ^ 5 / 5 - arctan t) has_real_derivative
             1 - t\<^sup>2 + t ^ 4 - inverse (1 + t\<^sup>2)) (at t)"
      by (auto intro!: derivative_eq_intros)
    moreover have "1 - t\<^sup>2 + t ^ 4 - inverse (1 + t\<^sup>2) = t ^ 6 / (1 + t\<^sup>2)"
    proof -
      have "0 < 1 + t\<^sup>2" by (simp add: add_pos_nonneg)
      then have "1 + t\<^sup>2 \<noteq> 0" by simp
      then show ?thesis by (simp add: field_simps power2_eq_square power_numeral_reduce)
    qed
    moreover have "0 \<le> t ^ 6 / (1 + t\<^sup>2)"
      by (intro divide_nonneg_nonneg) (auto intro: add_nonneg_nonneg)
    ultimately have "((\<lambda>t. t - t ^ 3 / 3 + t ^ 5 / 5 - arctan t) has_real_derivative
             1 - t\<^sup>2 + t ^ 4 - inverse (1 + t\<^sup>2)) (at t) \<and>
          0 \<le> 1 - t\<^sup>2 + t ^ 4 - inverse (1 + t\<^sup>2)"
      by simp
    then show "\<exists>y. ((\<lambda>t. t - t ^ 3 / 3 + t ^ 5 / 5 - arctan t) has_real_derivative y) (at t) \<and> 0 \<le> y"
      by (rule exI)
  qed
  then show ?thesis by simp
qed

lemma pi_bounds: "3.14 < pi" "pi < 3.142"
proof -
  have pi: "pi = 16 * arctan (1 / 5) - 4 * arctan (1 / 239)"
    using machin by simp
  have l5: "(1 / 5 :: real) - (1 / 5) ^ 3 / 3 \<le> arctan (1 / 5)"
    by (rule arctan_lower3) simp
  have u5: "arctan (1 / 5) \<le> (1 / 5 :: real) - (1 / 5) ^ 3 / 3 + (1 / 5) ^ 5 / 5"
    by (rule arctan_upper5) simp
  have u239: "arctan (1 / 239) \<le> (1 / 239 :: real)"
    by (rule arctan_upper1) simp
  have l239: "(1 / 239 :: real) - (1 / 239) ^ 3 / 3 \<le> arctan (1 / 239)"
    by (rule arctan_lower3) simp
  show "3.14 < pi"
    using l5 u239 unfolding pi by (simp add: power_numeral_reduce)
  show "pi < 3.142"
    using u5 l239 unfolding pi by (simp add: power_numeral_reduce)
qed

lemma atan2_sin_cos:
  assumes "- (pi / 2) < x" "x < pi / 2"
  shows "atan2 (sin x) (cos x) = x"
proof -
  from assms have "0 < cos x" by (rule cos_gt_zero_pi)
  then have "atan2 (sin x) (cos x) = arctan (tan x)"
    by (simp add: atan2_def tan_def)
  with assms show ?thesis by (simp add: arctan_tan)
qed

lemma haversine_one_degree: "haversine 0 0 0 1 = 6371 * pi / 180"
proof -
  let ?x = "pi / 360"
  have range: "0 < ?x" "?x < pi / 2" by simp_all
  then have s: "0 < sin ?x" and c: "0 < cos ?x"
    by (simp_all add: sin_gt_zero2 cos_gt_zero)
  have "sqrt (sin ?x * sin ?x) = sin ?x"
    using s by (simp add: real_sqrt_mult_self)
  moreover have "1 - sin ?x * sin ?x = cos ?x * cos ?x"
    using sin_cos_squared_add [of ?x] by (simp add: power2_eq_square algebra_simps)
  moreover have "sqrt (cos ?x * cos ?x) = cos ?x"
    using c by (simp add: real_sqrt_mult_self)
  moreover have "atan2 (sin ?x) (cos ?x) = ?x"
    using range by (intro atan2_sin_cos) simp_all
  ultimately show ?thesis
    by (simp add: haversine_def Let_def)
qed

lemma one_degree_is_111_km: "math_round (haversine 0 0 0 1) = 111"
proof -
  have "111 \<le> 6371 * pi / 180 + 1 / 2" "6371 * pi / 180 + 1 / 2 < 112"
    using pi_bounds by simp_all
  then show ?thesis
    unfolding haversine_one_degree math_round_def by (simp add: floor_eq_iff)
qed

lemma calculateDistance_nonzero:
  assumes "lat1 \<noteq> 0" "lon1 \<noteq> 0" "lat2 \<noteq> 0" "lon2 \<noteq> 0"
  shows "calculateDistance (Some lat1) (Some lon1) (Some lat2) (Some lon2) =
    Some (math_round (haversine lat1 lon1 lat2 lon2))"
  using assms by (simp add: calculateDistance_def falsy_number_def)

lemma room_distance_None_iff:
  "room_distance u1 u2 = None \<longleftrightarrow>
     (case (location u1, location u2) of
        (Some l1, Some l2) \<Rightarrow>
          falsy_number (latitude l1) \<or> falsy_number (longitude l1) \<or>
          falsy_number (latitude l2) \<or> falsy_number (longitude l2)
      | _ \<Rightarrow> True)"
  by (simp add: room_distance_def calculateDistance_def split: option.splits)

text \<open>
  Claim C6 fails on the code. calculateDistance tests its arguments for truthiness, so a
  coordinate that is the number 0 counts as missing: for a user at (0, 0) and a user at
  (0, 1), both with coordinates, the distance is null, although the haversine formula of the
  code gives 111 for these points.
\<close>

theorem zero_coordinates_give_no_distance:
  "calculateDistance (Some 0) (Some 0) (Some 0) (Some 1) = None \<and>
   room_distance
     ((example_user ''a'')
        \<lparr>location := Some \<lparr>country = ''X'', region = ''Y'', city = ''Z'',
                            latitude = Some 0, longitude = Some 0\<rparr>\<rparr>)
     ((example_user ''b'')
        \<lparr>location := Some \<lparr>country = ''X'', region = ''Y'', city = ''Z'',
                            latitude = Some 0, longitude = Some 1\<rparr>\<rparr>) = None \<and>
   math_round (haversine 0 0 0 1) = 111"
  by (simp add: calculateDistance_def falsy_number_def room_distance_def example_user_def
      one_degree_is_111_km)

section \<open>Room-scoped events from a connection that is in no room\<close>

text \<open>
  Claim C4 fails on the code as stated: from a connection that is in no room, typing-start
  delivers nothing at all (no error), and accept-voice-call is forwarded to the connection
  named in the request.
\<close>

theorem roomless_events_counterexample:
  "getRoomBySocketId (run initial two_joined) ''a'' = None \<and>
   step (run initial two_joined) (Request ''a'' Typing_start) = (run initial two_joined, []) \<and>
   step (run initial two_joined) (Request ''a'' (Accept_call Voice ''b'')) =
     (run initial two_joined, [(''b'', Call_accepted Voice ''a'')])"
  by (simp add: two_joined_state) (simp add: eval_defs)

text \<open>
  Claim C4 as amended. From a connection that is in no room, the three message events and
  the two initiate-call events deliver the error "Not in any chat room" to the sender alone;
  the two end-call events, the three webrtc events and the two typing events deliver nothing;
  the accept-call and reject-call events make no room check and are delivered to the sockets
  of the adapter room named by the caller id of the request. None of them changes the state.
\<close>

theorem roomless_events:
  assumes "getRoomBySocketId s sid = None"
  shows
    "on_send_message sid text uuid now now' s = (s, [(sid, Error ''Not in any chat room'')]) \<and>
     on_send_media_message sid md uuid now now' s = (s, [(sid, Error ''Not in any chat room'')]) \<and>
     on_send_voice_message sid vd uuid now now' s = (s, [(sid, Error ''Not in any chat room'')]) \<and>
     on_initiate_call k sid s = (s, [(sid, Error ''Not in any chat room'')]) \<and>
     on_end_call k sid s = (s, []) \<and>
     on_webrtc sk sid payload s = (s, []) \<and>
     on_typing_start sid s = (s, []) \<and>
     on_typing_stop sid s = (s, []) \<and>
     on_accept_call k sid callerId s =
       (s, map (\<lambda>x. (x, Call_accepted k sid)) (room_sockets s callerId)) \<and>
     on_reject_call k sid callerId s =
       (s, map (\<lambda>x. (x, Call_rejected k sid)) (room_sockets s callerId))"
  using assms
  by (simp add: on_send_message_def on_send_media_message_def on_send_voice_message_def
      send_to_room_def on_initiate_call_def on_end_call_def on_webrtc_def on_typing_start_def
      on_typing_stop_def forward_to_partner_def on_accept_call_def on_reject_call_def
      socket_emit_def io_to_emit_def)

theorem roomless_events_witness:
  "getRoomBySocketId (run initial two_joined) ''a'' = None \<and>
   on_send_message ''a'' ''hello'' ''m1'' 5 6 (run initial two_joined) =
     (run initial two_joined, [(''a'', Error ''Not in any chat room'')]) \<and>
   on_typing_stop ''a'' (run initial two_joined) = (run initial two_joined, [])"
proof -
  have roomless: "getRoomBySocketId (run initial two_joined) ''a'' = None"
    by (simp add: two_joined_state) (simp add: eval_defs)
  show ?thesis
    using roomless
      roomless_events [OF roomless, of "''hello''" "''m1''" 5 6]
    by blast
qed

section \<open>Association lists as Maps\<close>

lemma set_update_subset: "set (AList.update k v al) \<subseteq> insert (k, v) (set al)"
  by (induction al) auto

lemma set_delete_subset: "set (AList.delete k al) \<subseteq> set al"
  by (auto simp: AList.delete_eq)

lemma keys_delete: "fst ` set (AList.delete k al) = fst ` set al - {k}"
  by (induction al) auto

section \<open>The members of the active rooms\<close>

lemma members_of_Nil [simp]: "members_of [] = []"
  by (simp add: members_of_def)

lemma members_of_Cons [simp]:
  "members_of (p # rs) = socketId (user1 (snd p)) # socketId (user2 (snd p)) # members_of rs"
  by (simp add: members_of_def)

lemma members_of_append [simp]: "members_of (rs @ rs') = members_of rs @ members_of rs'"
  by (simp add: members_of_def)

lemma set_members_of:
  "set (members_of rs) = (\<Union>p \<in> set rs. {socketId (user1 (snd p)), socketId (user2 (snd p))})"
  by (induction rs) auto

lemma set_members_of_delete: "set (members_of (AList.delete k rs)) \<subseteq> set (members_of rs)"
  by (induction rs) auto

lemma distinct_members_of_delete:
  "distinct (members_of rs) \<Longrightarrow> distinct (members_of (AList.delete k rs))"
proof (induction rs)
  case Nil
  then show ?case by simp
next
  case (Cons p rs)
  then show ?case
    using set_members_of_delete [of k rs] by auto
qed

lemma set_members_of_update:
  "set (members_of (AList.update k r rs)) \<subseteq>
     {socketId (user1 r), socketId (user2 r)} \<union> set (members_of rs)"
  by (induction rs) auto

lemma distinct_members_of_update:
  assumes "distinct (members_of rs)" "socketId (user1 r) \<noteq> socketId (user2 r)"
    "socketId (user1 r) \<notin> set (members_of rs)" "socketId (user2 r) \<notin> set (members_of rs)"
  shows "distinct (members_of (AList.update k r rs))"
  using assms
proof (induction rs)
  case Nil
  then show ?case by simp
next
  case (Cons p rs)
  then show ?case
    using set_members_of_update [of k r rs] by auto
qed

lemma members_of_update_same:
  assumes "map_of rs k = Some r" "user1 r' = user1 r" "user2 r' = user2 r"
  shows "members_of (AList.update k r' rs) = members_of rs"
  using assms by (induction rs) (auto split: if_splits)

lemma find_member_None: "find (is_member sid) (map snd rs) = None \<longleftrightarrow> sid \<notin> set (members_of rs)"
  by (induction rs) (auto simp: is_member_def)

lemma find_member_Some:
  "find (is_member sid) (map snd rs) = Some r \<Longrightarrow> r \<in> snd ` set rs \<and> is_member sid r"
  by (induction rs) (auto split: if_splits)

lemma removed_room_members:
  assumes "distinct (members_of rs)" "(k, r) \<in> set rs" "distinct (map fst rs)"
  shows "socketId (user1 r) \<notin> set (members_of (AList.delete k rs)) \<and>
         socketId (user2 r) \<notin> set (members_of (AList.delete k rs))"
  using assms
proof (induction rs)
  case Nil
  then show ?case by simp
next
  case (Cons p rs)
  show ?case
  proof (cases "p = (k, r)")
    case True
    with Cons.prems have "k \<notin> fst ` set rs" by auto
    then have "AList.delete k rs = rs" by simp
    with True Cons.prems show ?thesis by auto
  next
    case False
    with Cons.prems have in_rs: "(k, r) \<in> set rs" by auto
    then have "k \<in> fst ` set rs" by force
    with Cons.prems have "fst p \<noteq> k" by auto
    moreover from in_rs have "socketId (user1 r) \<in> set (members_of rs)"
      "socketId (user2 r) \<in> set (members_of rs)"
      by (force simp: set_members_of)+
    ultimately show ?thesis
      using Cons.IH Cons.prems in_rs by auto
  qed
qed

section \<open>Room lookup\<close>

lemma getRoom_None: "getRoomBySocketId s sid = None \<longleftrightarrow> sid \<notin> set (room_members s)"
  by (simp add: getRoomBySocketId_def room_members_def find_member_None)

lemma getRoom_Some:
  assumes "getRoomBySocketId s sid = Some r"
  shows "r \<in> snd ` set (activeRooms s)" "is_member sid r" "sid \<in> set (room_members s)"
proof -
  from assms show "r \<in> snd ` set (activeRooms s)" "is_member sid r"
    using find_member_Some [of sid "activeRooms s" r] by (simp_all add: getRoomBySocketId_def)
  from assms show "sid \<in> set (room_members s)"
    using getRoom_None [of s sid] by simp
qed

lemma getRoom_Some_map_of:
  assumes "getRoomBySocketId s sid = Some r" "rooms_inv s"
  shows "map_of (activeRooms s) (room_id r) = Some r"
proof -
  from getRoom_Some(1) [OF assms(1)] obtain k where "(k, r) \<in> set (activeRooms s)" by auto
  moreover with assms(2) have "room_id r = k" by (auto simp: rooms_inv_def)
  ultimately show ?thesis
    using assms(2) by (simp add: rooms_inv_def)
qed

section \<open>What find-partner does, case by case\<close>

lemma findMatch_None:
  assumes "find (\<lambda>w. socketId w \<noteq> sid) (waitingUsers s) = None"
  shows "findMatch sid s = (None, s)"
  using assms by (simp add: findMatch_def find_filter_hd split: list.splits)

lemma findMatch_Some:
  assumes "find (\<lambda>w. socketId w \<noteq> sid) (waitingUsers s) = Some m"
  shows "findMatch sid s =
    (Some m, s\<lparr>waitingUsers :=
       filter (\<lambda>w. socketId w \<noteq> socketId m) (filter (\<lambda>w. socketId w \<noteq> sid) (waitingUsers s))\<rparr>)"
proof -
  from assms obtain rest where
    f: "filter (\<lambda>w. socketId w \<noteq> sid) (waitingUsers s) = m # rest"
    by (auto simp: find_filter_hd split: list.splits)
  have "filter (\<lambda>w. socketId w \<noteq> socketId m) (filter (\<lambda>w. socketId w \<noteq> sid) (waitingUsers s)) =
        filter (\<lambda>w. socketId w \<noteq> socketId m) (m # rest)"
    by (simp only: f)
  then show ?thesis
    using f by (simp add: findMatch_def removeWaitingUser_def)
qed

lemma find_partner_unregistered:
  assumes "map_of (userSockets s) sid = None"
  shows "on_find_partner sid uuid now s = (s, [(sid, Error ''User not found in system'')])"
  using assms by (simp add: on_find_partner_def socket_emit_def)

lemma find_partner_in_room:
  assumes "map_of (userSockets s) sid = Some u" "getRoomBySocketId s sid = Some r"
  shows "on_find_partner sid uuid now s = (s, [(sid, Error ''Already in a chat room'')])"
  using assms by (simp add: on_find_partner_def socket_emit_def)

lemma find_partner_no_match:
  assumes "map_of (userSockets s) sid = Some u" "getRoomBySocketId s sid = None"
    "find (\<lambda>w. socketId w \<noteq> sid) (waitingUsers s) = None"
  shows "on_find_partner sid uuid now s =
    (s\<lparr>waitingUsers := waitingUsers s @ [u\<lparr>joinedAt := now\<rparr>]\<rparr>, [(sid, Searching_partner)])"
  using assms by (simp add: on_find_partner_def findMatch_None addWaitingUser_def socket_emit_def)

lemma find_partner_match:
  assumes "map_of (userSockets s) sid = Some u" "getRoomBySocketId s sid = None"
    "find (\<lambda>w. socketId w \<noteq> sid) (waitingUsers s) = Some m"
  shows "on_find_partner sid uuid now s =
    (matched_state sid u m uuid now s,
     (sid, Partner_found
        \<lparr>roomId = uuid, partnerId = socketId m,
         partner_nickname = nickname_or_anonymous (nickname m),
         partner_location = location_summary (location m) (room_distance u m)\<rparr>) #
     io_to_emit (matched_state sid u m uuid now s) (socketId m)
       (Partner_found
          \<lparr>roomId = uuid, partnerId = sid,
           partner_nickname = nickname_or_anonymous (nickname u),
           partner_location = location_summary (location u) (room_distance u m)\<rparr>))"
  using assms
  by (simp add: on_find_partner_def findMatch_Some createRoom_def matched_state_def
      matched_room_def Let_def socket_emit_def socket_join_def)

section \<open>The handlers preserve the invariant of the ChatManager\<close>

lemmas chat_inv_defs =
  chat_inv_def rooms_inv_def registry_inv_def waiting_inv_def members_inv_def room_members_def

lemma chat_inv_frame:
  assumes "waitingUsers s' = waitingUsers s" "activeRooms s' = activeRooms s"
    "userSockets s' = userSockets s"
  shows "chat_inv s' = chat_inv s"
  unfolding chat_inv_defs by (simp only: assms)

lemma chat_inv_initial: "chat_inv initial"
  by (simp add: chat_inv_defs initial_def)

lemma registered_socketId:
  assumes "registry_inv s" "map_of (userSockets s) sid = Some u"
  shows "socketId u = sid"
proof -
  from assms(2) have "(sid, u) \<in> set (userSockets s)" by (rule map_of_SomeD)
  with assms(1) show ?thesis by (auto simp: registry_inv_def)
qed

lemma chat_inv_join_system:
  assumes "chat_inv s"
  shows "chat_inv (fst (on_join_system c sid nick now s))"
proof -
  let ?u = "\<lparr>socketId = sid, nickname = nick, joinedAt = now, location = userLocation c,
             ip = clientIP c\<rparr>"
  have keys: "fst ` set (AList.update sid ?u (userSockets s)) = {sid} \<union> fst ` set (userSockets s)"
    by (rule dom_update)
  have "\<forall>p \<in> set (AList.update sid ?u (userSockets s)). socketId (snd p) = fst p"
    using assms set_update_subset [of sid ?u "userSockets s"]
    by (auto simp: chat_inv_def registry_inv_def)
  moreover have "distinct (map fst (AList.update sid ?u (userSockets s)))"
    using assms by (simp add: chat_inv_def registry_inv_def distinct_update)
  ultimately have "registry_inv (fst (on_join_system c sid nick now s))"
    by (simp add: on_join_system_def Let_def registry_inv_def)
  moreover have "rooms_inv (fst (on_join_system c sid nick now s))"
    using assms by (simp add: on_join_system_def Let_def chat_inv_def rooms_inv_def room_members_def)
  moreover have "waiting_inv (fst (on_join_system c sid nick now s))"
    using assms by (simp add: on_join_system_def Let_def chat_inv_def waiting_inv_def room_members_def keys)
  moreover have "members_inv (fst (on_join_system c sid nick now s))"
    using assms by (auto simp add: on_join_system_def Let_def chat_inv_def members_inv_def room_members_def keys)
  ultimately show ?thesis
    by (simp add: chat_inv_def)
qed

lemma matched_state_fields:
  "waitingUsers (matched_state sid u m uuid now s) =
     filter (\<lambda>w. socketId w \<noteq> socketId m) (filter (\<lambda>w. socketId w \<noteq> sid) (waitingUsers s))"
  "activeRooms (matched_state sid u m uuid now s) =
     AList.update uuid (matched_room u m uuid now) (activeRooms s)"
  "userSockets (matched_state sid u m uuid now s) = userSockets s"
  "sockets (matched_state sid u m uuid now s) = sockets s"
  by (simp_all add: matched_state_def Let_def socket_join_def)

lemma chat_inv_matched:
  assumes inv: "chat_inv s" and u: "map_of (userSockets s) sid = Some u"
    and free: "getRoomBySocketId s sid = None"
    and m: "find (\<lambda>w. socketId w \<noteq> sid) (waitingUsers s) = Some m"
  shows "chat_inv (matched_state sid u m uuid now s)"
proof -
  let ?r = "matched_room u m uuid now"
  let ?rs = "AList.update uuid ?r (activeRooms s)"
  from inv u have su: "socketId u = sid"
    using registered_socketId [of s sid u] by (simp add: chat_inv_def)
  from u have reg: "sid \<in> fst ` set (userSockets s)"
    using map_of_SomeD [of "userSockets s" sid u] by force
  from m have mw: "m \<in> set (waitingUsers s)" and ms: "socketId m \<noteq> sid"
    by (auto simp: find_Some_iff)
  from inv mw have mfree: "socketId m \<notin> set (members_of (activeRooms s))"
    and mreg: "socketId m \<in> fst ` set (userSockets s)"
    by (auto simp: chat_inv_defs)
  from free have sfree: "sid \<notin> set (members_of (activeRooms s))"
    by (simp add: getRoom_None room_members_def)
  have mem: "set (members_of ?rs) \<subseteq> {sid, socketId m} \<union> set (members_of (activeRooms s))"
    using set_members_of_update [of uuid ?r "activeRooms s"] su
    by (simp add: matched_room_def)
  have "distinct (members_of ?rs)"
    using inv su ms sfree mfree
    by (intro distinct_members_of_update) (simp_all add: chat_inv_defs matched_room_def)
  moreover have "distinct (map fst ?rs)"
    using inv by (simp add: chat_inv_defs distinct_update)
  moreover have "\<forall>p \<in> set ?rs. room_id (snd p) = fst p"
    using inv set_update_subset [of uuid ?r "activeRooms s"]
    by (auto simp: chat_inv_defs matched_room_def)
  ultimately have "rooms_inv (matched_state sid u m uuid now s)"
    by (simp add: rooms_inv_def room_members_def matched_state_fields)
  moreover have "registry_inv (matched_state sid u m uuid now s)"
    using inv by (simp add: chat_inv_def registry_inv_def matched_state_fields)
  moreover have "waiting_inv (matched_state sid u m uuid now s)"
    using inv mem by (auto simp: chat_inv_defs matched_state_fields)
  moreover have "members_inv (matched_state sid u m uuid now s)"
    using inv mem reg mreg by (auto simp: chat_inv_defs matched_state_fields)
  ultimately show ?thesis
    by (simp add: chat_inv_def)
qed

lemma chat_inv_find_partner:
  assumes "chat_inv s"
  shows "chat_inv (fst (on_find_partner sid uuid now s))"
proof (cases "map_of (userSockets s) sid")
  case None
  with assms show ?thesis by (simp add: find_partner_unregistered)
next
  case (Some u)
  show ?thesis
  proof (cases "getRoomBySocketId s sid")
    case (Some r)
    with \<open>map_of (userSockets s) sid = Some u\<close> assms show ?thesis
      by (simp add: find_partner_in_room)
  next
    case None
    note free = this
    show ?thesis
    proof (cases "find (\<lambda>w. socketId w \<noteq> sid) (waitingUsers s)")
      case None
      from Some have "sid \<in> fst ` set (userSockets s)"
        using map_of_SomeD [of "userSockets s" sid u] by force
      moreover from assms Some have "socketId u = sid"
        using registered_socketId [of s sid u] by (simp add: chat_inv_def)
      moreover from free have "sid \<notin> set (members_of (activeRooms s))"
        by (simp add: getRoom_None room_members_def)
      ultimately have "chat_inv (s\<lparr>waitingUsers := waitingUsers s @ [u\<lparr>joinedAt := now\<rparr>]\<rparr>)"
        using assms by (auto simp: chat_inv_defs)
      with Some free None show ?thesis
        by (simp add: find_partner_no_match)
    next
      case (Some m)
      with \<open>map_of (userSockets s) sid = Some u\<close> free assms show ?thesis
        by (simp add: find_partner_match chat_inv_matched)
    qed
  qed
qed

lemma addMessageToRoom_found:
  assumes "rooms_inv s" "getRoomBySocketId s sid = Some r"
  shows "addMessageToRoom (room_id r) m now s =
    s\<lparr>activeRooms :=
        AList.update (room_id r) (r\<lparr>messages := messages r @ [m\<lparr>timestamp := now\<rparr>]\<rparr>)
          (activeRooms s)\<rparr>"
  using getRoom_Some_map_of [OF assms(2) assms(1)] by (simp add: addMessageToRoom_def)

lemma send_to_room_in_room:
  assumes "rooms_inv s" "getRoomBySocketId s sid = Some r"
  shows "send_to_room sid m now s =
    (addMessageToRoom (room_id r) m now s,
     io_to_emit (addMessageToRoom (room_id r) m now s) (room_id r) (New_message m))"
  using assms by (simp add: send_to_room_def Let_def)

lemma chat_inv_addMessage:
  assumes inv: "chat_inv s" and r: "getRoomBySocketId s sid = Some r"
  shows "chat_inv (addMessageToRoom (room_id r) m now s)"
proof -
  let ?r = "r\<lparr>messages := messages r @ [m\<lparr>timestamp := now\<rparr>]\<rparr>"
  let ?rs = "AList.update (room_id r) ?r (activeRooms s)"
  from inv have rinv: "rooms_inv s" by (simp add: chat_inv_def)
  have look: "map_of (activeRooms s) (room_id r) = Some r"
    by (rule getRoom_Some_map_of [OF r rinv])
  have mem: "members_of ?rs = members_of (activeRooms s)"
    by (rule members_of_update_same [OF look]) simp_all
  have "distinct (map fst ?rs)"
    using rinv by (simp add: rooms_inv_def distinct_update)
  moreover have "\<forall>p \<in> set ?rs. room_id (snd p) = fst p"
    using rinv set_update_subset [of "room_id r" ?r "activeRooms s"]
    by (auto simp: rooms_inv_def)
  ultimately have "rooms_inv (s\<lparr>activeRooms := ?rs\<rparr>)"
    using rinv by (simp add: rooms_inv_def room_members_def mem)
  moreover have "registry_inv (s\<lparr>activeRooms := ?rs\<rparr>)"
    using inv by (simp add: chat_inv_def registry_inv_def)
  moreover have "waiting_inv (s\<lparr>activeRooms := ?rs\<rparr>)"
    using inv by (simp add: chat_inv_def waiting_inv_def room_members_def mem)
  moreover have "members_inv (s\<lparr>activeRooms := ?rs\<rparr>)"
    using inv by (simp add: chat_inv_def members_inv_def room_members_def mem)
  ultimately show ?thesis
    by (simp add: chat_inv_def addMessageToRoom_found [OF rinv r])
qed

lemma chat_inv_send_to_room:
  assumes "chat_inv s"
  shows "chat_inv (fst (send_to_room sid m now s))"
proof (cases "getRoomBySocketId s sid")
  case None
  with assms show ?thesis by (simp add: send_to_room_def)
next
  case (Some r)
  with assms show ?thesis
    by (simp add: send_to_room_def Let_def chat_inv_addMessage)
qed

lemma chat_inv_removeWaitingUser:
  assumes "chat_inv s"
  shows "chat_inv (removeWaitingUser sid s)"
  using assms by (simp add: chat_inv_defs removeWaitingUser_def)

lemma getRoom_removeWaitingUser [simp]:
  "getRoomBySocketId (removeWaitingUser sid s) x = getRoomBySocketId s x"
  by (simp add: getRoomBySocketId_def removeWaitingUser_def)

lemma chat_inv_removeRoom:
  assumes "chat_inv s"
  shows "chat_inv (removeRoom k s)"
proof -
  have sub: "set (members_of (AList.delete k (activeRooms s))) \<subseteq> set (members_of (activeRooms s))"
    by (rule set_members_of_delete)
  have "rooms_inv (removeRoom k s)"
    using assms set_delete_subset [of k "activeRooms s"]
    by (auto simp: chat_inv_def rooms_inv_def room_members_def removeRoom_def distinct_delete
        distinct_members_of_delete)
  moreover have "registry_inv (removeRoom k s)"
    using assms by (simp add: chat_inv_def registry_inv_def removeRoom_def)
  moreover have "waiting_inv (removeRoom k s)"
    using assms sub by (auto simp: chat_inv_def waiting_inv_def room_members_def removeRoom_def)
  moreover have "members_inv (removeRoom k s)"
    using assms sub by (auto simp: chat_inv_def members_inv_def room_members_def removeRoom_def)
  ultimately show ?thesis
    by (simp add: chat_inv_def)
qed

lemma chat_inv_stop_chat:
  assumes "chat_inv s"
  shows "chat_inv (fst (on_stop_chat sid s))"
proof (cases "getRoomBySocketId s sid")
  case None
  with assms show ?thesis
    by (simp add: on_stop_chat_def Let_def chat_inv_removeWaitingUser)
next
  case (Some r)
  have "chat_inv (removeRoom (room_id r) (removeWaitingUser sid s))"
    by (intro chat_inv_removeRoom chat_inv_removeWaitingUser assms)
  then have "chat_inv (socket_leave sid (room_id r) (removeRoom (room_id r) (removeWaitingUser sid s)))"
    using chat_inv_frame [of "socket_leave sid (room_id r) (removeRoom (room_id r) (removeWaitingUser sid s))"
        "removeRoom (room_id r) (removeWaitingUser sid s)"]
    by (simp add: socket_leave_def)
  with Some show ?thesis
    by (simp add: on_stop_chat_def Let_def)
qed

lemma members_removed:
  assumes "rooms_inv s" "getRoomBySocketId s sid = Some r"
  shows "socketId (user1 r) \<notin> set (room_members (removeRoom (room_id r) s))"
    and "socketId (user2 r) \<notin> set (room_members (removeRoom (room_id r) s))"
    and "sid \<notin> set (room_members (removeRoom (room_id r) s))"
proof -
  have "(room_id r, r) \<in> set (activeRooms s)"
    using getRoom_Some_map_of [OF assms(2) assms(1)] by (rule map_of_SomeD)
  then have gone: "socketId (user1 r) \<notin> set (members_of (AList.delete (room_id r) (activeRooms s))) \<and>
         socketId (user2 r) \<notin> set (members_of (AList.delete (room_id r) (activeRooms s)))"
    using assms(1) by (intro removed_room_members) (simp_all add: rooms_inv_def room_members_def)
  then show "socketId (user1 r) \<notin> set (room_members (removeRoom (room_id r) s))"
    and "socketId (user2 r) \<notin> set (room_members (removeRoom (room_id r) s))"
    by (simp_all add: room_members_def removeRoom_def)
  with getRoom_Some(2) [OF assms(2)]
  show "sid \<notin> set (room_members (removeRoom (room_id r) s))"
    by (auto simp: is_member_def)
qed

lemma chat_inv_unregister:
  assumes inv: "chat_inv s" and w: "sid \<notin> socketId ` set (waitingUsers s)"
    and r: "sid \<notin> set (room_members s)"
  shows "chat_inv (s\<lparr>userSockets := AList.delete sid (userSockets s)\<rparr>)"
proof -
  let ?s = "s\<lparr>userSockets := AList.delete sid (userSockets s)\<rparr>"
  have keys: "fst ` set (AList.delete sid (userSockets s)) = fst ` set (userSockets s) - {sid}"
    by (rule keys_delete)
  have "rooms_inv ?s"
    using inv by (simp add: chat_inv_def rooms_inv_def room_members_def)
  moreover have "registry_inv ?s"
    using inv set_delete_subset [of sid "userSockets s"]
    by (auto simp: chat_inv_def registry_inv_def distinct_delete)
  moreover have "waiting_inv ?s"
    using inv w by (auto simp: chat_inv_def waiting_inv_def room_members_def keys)
  moreover have "members_inv ?s"
    using inv r by (auto simp: chat_inv_def members_inv_def room_members_def keys)
  ultimately show ?thesis
    by (simp add: chat_inv_def)
qed

lemma disconnect_state:
  "fst (on_disconnect sid s) =
     (case getRoomBySocketId s sid of
        None \<Rightarrow> removeWaitingUser sid s
      | Some r \<Rightarrow> removeRoom (room_id r) (removeWaitingUser sid s))
     \<lparr>userSockets := AList.delete sid (userSockets s)\<rparr>"
  by (simp add: on_disconnect_def Let_def getRoomBySocketId_def removeWaitingUser_def
      removeRoom_def split: option.splits)

lemma chat_inv_disconnect:
  assumes "chat_inv s"
  shows "chat_inv (fst (on_disconnect sid s))"
proof -
  let ?s = "case getRoomBySocketId s sid of
        None \<Rightarrow> removeWaitingUser sid s
      | Some r \<Rightarrow> removeRoom (room_id r) (removeWaitingUser sid s)"
  have users: "userSockets ?s = userSockets s"
    by (simp add: removeWaitingUser_def removeRoom_def split: option.splits)
  have "chat_inv ?s"
    using assms by (simp add: chat_inv_removeWaitingUser chat_inv_removeRoom split: option.splits)
  moreover have "sid \<notin> socketId ` set (waitingUsers ?s)"
    by (auto simp: removeWaitingUser_def removeRoom_def split: option.splits)
  moreover have "sid \<notin> set (room_members ?s)"
  proof (cases "getRoomBySocketId s sid")
    case None
    then have "sid \<notin> set (room_members (removeWaitingUser sid s))"
      by (simp add: getRoom_None room_members_def removeWaitingUser_def)
    with None show ?thesis by simp
  next
    case (Some r)
    have "rooms_inv (removeWaitingUser sid s)"
      using chat_inv_removeWaitingUser [OF assms, of sid] by (simp add: chat_inv_def)
    moreover have "getRoomBySocketId (removeWaitingUser sid s) sid = Some r"
      using Some by simp
    ultimately have "sid \<notin> set (room_members (removeRoom (room_id r) (removeWaitingUser sid s)))"
      by (rule members_removed(3))
    with Some show ?thesis by simp
  qed
  ultimately have "chat_inv (?s\<lparr>userSockets := AList.delete sid (userSockets ?s)\<rparr>)"
    by (rule chat_inv_unregister)
  then show ?thesis
    by (simp only: disconnect_state users)
qed

lemma forward_to_partner_state [simp]: "fst (forward_to_partner sid e s) = s"
  by (simp add: forward_to_partner_def split: option.splits)

lemma unchanged_state [simp]:
  "fst (on_get_partner_location sid s) = s"
  "fst (on_initiate_call k sid s) = s"
  "fst (on_accept_call k sid callerId s) = s"
  "fst (on_reject_call k sid callerId s) = s"
  "fst (on_end_call k sid s) = s"
  "fst (on_webrtc sk sid payload s) = s"
  "fst (on_typing_start sid s) = s"
  "fst (on_typing_stop sid s) = s"
  by (simp_all add: on_get_partner_location_def on_initiate_call_def on_accept_call_def
      on_reject_call_def on_end_call_def on_webrtc_def on_typing_start_def on_typing_stop_def
      split: option.splits)

lemma chat_inv_handle:
  assumes "chat_inv s"
  shows "chat_inv (fst (handle c sid req s))"
  using assms
  by (cases req)
    (simp_all add: chat_inv_join_system chat_inv_find_partner chat_inv_send_to_room
      chat_inv_stop_chat on_send_message_def on_send_media_message_def on_send_voice_message_def)

lemma chat_inv_step:
  assumes "chat_inv s"
  shows "chat_inv (fst (step s e))"
proof (cases e)
  case (Connect sid c)
  have "chat_inv (socket_join sid sid (s\<lparr>sockets := sockets s @ [(sid, c)]\<rparr>))"
    using assms chat_inv_frame [of "socket_join sid sid (s\<lparr>sockets := sockets s @ [(sid, c)]\<rparr>)" s]
    by (simp add: socket_join_def)
  with Connect assms show ?thesis by simp
next
  case (Request sid req)
  with assms show ?thesis
    by (simp add: chat_inv_handle split: option.splits)
next
  case (Disconnect sid)
  let ?s = "s\<lparr>sockets := AList.delete sid (sockets s),
               adapter := filter (\<lambda>p. snd p \<noteq> sid) (adapter s)\<rparr>"
  have "chat_inv ?s"
    using assms chat_inv_frame [of ?s s] by simp
  then have "chat_inv (fst (on_disconnect sid ?s))"
    by (rule chat_inv_disconnect)
  with Disconnect assms show ?thesis
    by (simp split: option.splits)
qed

lemma chat_inv_run:
  assumes "chat_inv s"
  shows "chat_inv (run s es)"
  using assms by (induction es arbitrary: s) (simp_all add: chat_inv_step)

lemma chat_inv_reachable: "chat_inv (run initial es)"
  by (rule chat_inv_run [OF chat_inv_initial])

lemma four_paired_state:
  "run initial four_paired =
     \<lparr>waitingUsers = [],
      activeRooms = [(''r1'', room_ba), (''r3'', room_dc)],
      userSockets =
        [(''a'', example_profile ''a'' (Some ''alice'') 1), (''b'', example_profile ''b'' None 2),
         (''c'', example_profile ''c'' (Some ''carol'') 3),
         (''d'', example_profile ''d'' (Some []) 4)],
      sockets =
        [(''a'', example_connection), (''b'', example_connection),
         (''c'', example_connection), (''d'', example_connection)],
      adapter =
        [(''a'', ''a''), (''b'', ''b''), (''c'', ''c''), (''d'', ''d''), (''r1'', ''b''),
         (''r1'', ''a''), (''r3'', ''d''), (''r3'', ''c'')]\<rparr>"
  by (simp add: eval_defs)

section \<open>At most one room per connection\<close>

lemma filter_member_empty:
  "sid \<notin> set (members_of rs) \<Longrightarrow> filter (is_member sid) (map snd rs) = []"
  by (induction rs) (auto simp: is_member_def)

lemma member_of_at_most_one_room:
  "distinct (members_of rs) \<Longrightarrow> length (filter (is_member sid) (map snd rs)) \<le> 1"
proof (induction rs)
  case Nil
  then show ?case by simp
next
  case (Cons p rs)
  show ?case
  proof (cases "is_member sid (snd p)")
    case True
    with Cons.prems have "sid \<notin> set (members_of rs)"
      by (auto simp: is_member_def)
    with True show ?thesis
      by (simp add: filter_member_empty)
  next
    case False
    with Cons show ?thesis by simp
  qed
qed

lemma rooms_share_no_member:
  assumes "distinct (members_of rs)" "p \<in> set rs" "q \<in> set rs" "p \<noteq> q"
  shows "{socketId (user1 (snd p)), socketId (user2 (snd p))} \<inter>
         {socketId (user1 (snd q)), socketId (user2 (snd q))} = {}"
  using assms
proof (induction rs)
  case Nil
  then show ?case by simp
next
  case (Cons x rs)
  have in_rest: "y \<in> set rs \<Longrightarrow>
      socketId (user1 (snd y)) \<in> set (members_of rs) \<and>
      socketId (user2 (snd y)) \<in> set (members_of rs)" for y
    by (force simp: set_members_of)
  from Cons.prems consider "p = x" "q \<in> set rs" | "q = x" "p \<in> set rs"
    | "p \<in> set rs" "q \<in> set rs"
    by auto
  then show ?case
  proof cases
    case 1
    with Cons.prems(1) in_rest [of q] show ?thesis by auto
  next
    case 2
    with Cons.prems(1) in_rest [of p] show ?thesis by auto
  next
    case 3
    with Cons show ?thesis by simp
  qed
qed

lemma room_members_differ:
  assumes "distinct (members_of rs)" "p \<in> set rs"
  shows "socketId (user1 (snd p)) \<noteq> socketId (user2 (snd p))"
  using assms by (induction rs) auto

lemma in_room_registered:
  assumes "chat_inv s" "getRoomBySocketId s sid = Some r"
  shows "\<exists>u. map_of (userSockets s) sid = Some u"
proof -
  from assms have "sid \<in> fst ` set (userSockets s)"
    using getRoom_Some(3) [OF assms(2)] by (auto simp: chat_inv_def members_inv_def)
  then show ?thesis
    using map_of_eq_None_iff [of "userSockets s" sid] by auto
qed

text \<open>
  Claim C1. After every sequence of events, each connection id is a member of at most one
  active room, two different active rooms have no member in common, the two members of every
  room differ, and find-partner from a connection that is in a room delivers the error
  "Already in a chat room" to that connection alone and changes no state.
\<close>

theorem rooms_are_disjoint_pairs:
  "(\<forall>sid. length (filter (is_member sid) (map snd (activeRooms (run initial es)))) \<le> 1) \<and>
   (\<forall>p \<in> set (activeRooms (run initial es)). \<forall>q \<in> set (activeRooms (run initial es)).
      p \<noteq> q \<longrightarrow>
      {socketId (user1 (snd p)), socketId (user2 (snd p))} \<inter>
      {socketId (user1 (snd q)), socketId (user2 (snd q))} = {}) \<and>
   (\<forall>p \<in> set (activeRooms (run initial es)).
      socketId (user1 (snd p)) \<noteq> socketId (user2 (snd p))) \<and>
   (\<forall>sid r uuid now. getRoomBySocketId (run initial es) sid = Some r \<longrightarrow>
      on_find_partner sid uuid now (run initial es) =
        (run initial es, [(sid, Error ''Already in a chat room'')]))"
proof -
  have inv: "chat_inv (run initial es)" by (rule chat_inv_reachable)
  then have d: "distinct (members_of (activeRooms (run initial es)))"
    by (simp add: chat_inv_def rooms_inv_def room_members_def)
  have "on_find_partner sid uuid now (run initial es) =
        (run initial es, [(sid, Error ''Already in a chat room'')])"
    if "getRoomBySocketId (run initial es) sid = Some r" for sid r uuid now
    using in_room_registered [OF inv that] that by (auto simp: find_partner_in_room)
  then show ?thesis
    using member_of_at_most_one_room [OF d] rooms_share_no_member [OF d] room_members_differ [OF d]
    by blast
qed

theorem rooms_are_disjoint_pairs_witness:
  "(''r1'', room_ba) \<in> set (activeRooms (run initial four_paired)) \<and>
   (''r3'', room_dc) \<in> set (activeRooms (run initial four_paired)) \<and>
   (''r1'', room_ba) \<noteq> (''r3'', room_dc) \<and>
   {socketId (user1 room_ba), socketId (user2 room_ba)} \<inter>
   {socketId (user1 room_dc), socketId (user2 room_dc)} = {} \<and>
   socketId (user1 room_ba) \<noteq> socketId (user2 room_ba) \<and>
   getRoomBySocketId (run initial four_paired) ''a'' = Some room_ba \<and>
   on_find_partner ''a'' ''r4'' 9 (run initial four_paired) =
     (run initial four_paired, [(''a'', Error ''Already in a chat room'')])"
proof -
  have rooms: "(''r1'', room_ba) \<in> set (activeRooms (run initial four_paired))"
    "(''r3'', room_dc) \<in> set (activeRooms (run initial four_paired))"
    by (simp_all add: four_paired_state)
  have diff: "(''r1'', room_ba) \<noteq> (''r3'', room_dc)" by simp
  have a: "getRoomBySocketId (run initial four_paired) ''a'' = Some room_ba"
    by (simp add: four_paired_state) (simp add: eval_defs)
  note inst = rooms_are_disjoint_pairs [of four_paired]
  have "{socketId (user1 (snd (''r1'', room_ba))), socketId (user2 (snd (''r1'', room_ba)))} \<inter>
        {socketId (user1 (snd (''r3'', room_dc))), socketId (user2 (snd (''r3'', room_dc)))} = {}"
    by (rule inst [THEN conjunct2, THEN conjunct1, rule_format, OF rooms(1) rooms(2) diff])
  moreover have "socketId (user1 (snd (''r1'', room_ba))) \<noteq> socketId (user2 (snd (''r1'', room_ba)))"
    by (rule inst [THEN conjunct2, THEN conjunct2, THEN conjunct1, rule_format, OF rooms(1)])
  moreover have "on_find_partner ''a'' ''r4'' 9 (run initial four_paired) =
     (run initial four_paired, [(''a'', Error ''Already in a chat room'')])"
    by (rule inst [THEN conjunct2, THEN conjunct2, THEN conjunct2, rule_format, OF a])
  ultimately show ?thesis
    using rooms diff a by (simp only: snd_conv simp_thms)
qed

section \<open>Repeated find-partner from a waiting connection\<close>

lemma stop_chat_waiting:
  "waitingUsers (fst (on_stop_chat sid t)) = filter (\<lambda>w. socketId w \<noteq> sid) (waitingUsers t)"
  by (simp add: on_stop_chat_def Let_def removeWaitingUser_def removeRoom_def socket_leave_def
      split: option.splits)

lemma disconnect_waiting:
  "waitingUsers (fst (on_disconnect sid t)) = filter (\<lambda>w. socketId w \<noteq> sid) (waitingUsers t)"
  by (simp add: disconnect_state removeWaitingUser_def removeRoom_def split: option.splits)

lemma match_waiting:
  assumes "map_of (userSockets t) x = Some ux" "getRoomBySocketId t x = None"
    "find (\<lambda>w. socketId w \<noteq> x) (waitingUsers t) = Some m"
  shows "waitingUsers (fst (on_find_partner x uuid now t)) =
    filter (\<lambda>w. socketId w \<noteq> socketId m) (filter (\<lambda>w. socketId w \<noteq> x) (waitingUsers t))"
  by (simp add: find_partner_match [OF assms] matched_state_fields)

text \<open>
  Claim C3 fails on the code as stated: a second find-partner from a connection that is
  waiting alone is answered with searching-partner again, and the queue then holds two
  entries for that connection.
\<close>

theorem second_find_partner_counterexample:
  "map socketId
     (waitingUsers (run initial (two_joined @ [Request ''a'' (Find_partner ''r1'' 3)]))) =
     [''a''] \<and>
   snd (step (run initial (two_joined @ [Request ''a'' (Find_partner ''r1'' 3)]))
          (Request ''a'' (Find_partner ''r2'' 4))) = [(''a'', Searching_partner)] \<and>
   map socketId
     (waitingUsers (fst (step (run initial (two_joined @ [Request ''a'' (Find_partner ''r1'' 3)]))
          (Request ''a'' (Find_partner ''r2'' 4))))) = [''a'', ''a'']"
  by (simp add: eval_defs)

text \<open>
  Claim C3 as amended. In a state reached by any sequence of events, if a registered
  connection that is in no room sends find-partner while the queue is empty, its profile is
  enqueued once and it receives searching-partner. A second find-partner from it before it
  is matched is not rejected: it receives searching-partner again and a second entry for it
  is appended to the queue. All entries of a connection leave the queue together: in every
  state, after its stop-chat, after its disconnect, and after a find-partner that matches it
  (as the requester or as the waiting entry that is chosen), the queue holds no entry for it.
\<close>

theorem find_partner_on_empty_queue:
  assumes "s = run initial es" "map_of (userSockets s) sid = Some u"
    "getRoomBySocketId s sid = None" "waitingUsers s = []"
  shows "on_find_partner sid uuid now s =
           (s\<lparr>waitingUsers := [u\<lparr>joinedAt := now\<rparr>]\<rparr>, [(sid, Searching_partner)]) \<and>
         on_find_partner sid uuid' now' (s\<lparr>waitingUsers := [u\<lparr>joinedAt := now\<rparr>]\<rparr>) =
           (s\<lparr>waitingUsers := [u\<lparr>joinedAt := now\<rparr>, u\<lparr>joinedAt := now'\<rparr>]\<rparr>,
            [(sid, Searching_partner)]) \<and>
         (\<forall>t. sid \<notin> socketId ` set (waitingUsers (fst (on_stop_chat sid t)))) \<and>
         (\<forall>t. sid \<notin> socketId ` set (waitingUsers (fst (on_disconnect sid t)))) \<and>
         (\<forall>t x ux m uuid'' now''.
            map_of (userSockets t) x = Some ux \<and> getRoomBySocketId t x = None \<and>
            find (\<lambda>w. socketId w \<noteq> x) (waitingUsers t) = Some m \<and>
            (sid = x \<or> sid = socketId m) \<longrightarrow>
            sid \<notin> socketId ` set (waitingUsers (fst (on_find_partner x uuid'' now'' t))))"
proof -
  let ?s = "s\<lparr>waitingUsers := [u\<lparr>joinedAt := now\<rparr>]\<rparr>"
  from assms(1) have "chat_inv s" by (simp add: chat_inv_reachable)
  then have su: "socketId u = sid"
    using registered_socketId [OF _ assms(2)] by (simp add: chat_inv_def)
  have first: "on_find_partner sid uuid now s = (?s, [(sid, Searching_partner)])"
    using find_partner_no_match [OF assms(2) assms(3), where uuid = uuid and now = now] assms(4)
    by simp
  have "map_of (userSockets ?s) sid = Some u" "getRoomBySocketId ?s sid = None"
    using assms(2,3) by (simp_all add: getRoomBySocketId_def)
  moreover have "find (\<lambda>w. socketId w \<noteq> sid) (waitingUsers ?s) = None"
    using su by simp
  ultimately have "on_find_partner sid uuid' now' ?s =
      (?s\<lparr>waitingUsers := waitingUsers ?s @ [u\<lparr>joinedAt := now'\<rparr>]\<rparr>, [(sid, Searching_partner)])"
    by (rule find_partner_no_match)
  with first have two: "on_find_partner sid uuid now s = (?s, [(sid, Searching_partner)]) \<and>
      on_find_partner sid uuid' now' ?s =
        (s\<lparr>waitingUsers := [u\<lparr>joinedAt := now\<rparr>, u\<lparr>joinedAt := now'\<rparr>]\<rparr>,
         [(sid, Searching_partner)])"
    by simp
  have stop: "sid \<notin> socketId ` set (waitingUsers (fst (on_stop_chat sid t)))" for t
    by (auto simp: stop_chat_waiting)
  have disc: "sid \<notin> socketId ` set (waitingUsers (fst (on_disconnect sid t)))" for t
    by (auto simp: disconnect_waiting)
  have matched: "sid \<notin> socketId ` set (waitingUsers (fst (on_find_partner x uuid'' now'' t)))"
    if "map_of (userSockets t) x = Some ux" "getRoomBySocketId t x = None"
      "find (\<lambda>w. socketId w \<noteq> x) (waitingUsers t) = Some m" "sid = x \<or> sid = socketId m"
    for t x ux m uuid'' now''
    using that(4) by (auto simp: match_waiting [OF that(1-3)])
  show ?thesis
    using two stop disc matched by blast
qed

theorem find_partner_on_empty_queue_witness:
  "map_of (userSockets (run initial two_joined)) ''a'' = Some (example_profile ''a'' (Some ''alice'') 1) \<and>
   getRoomBySocketId (run initial two_joined) ''a'' = None \<and>
   waitingUsers (run initial two_joined) = [] \<and>
   on_find_partner ''a'' ''r1'' 3 (run initial two_joined) =
     ((run initial two_joined)\<lparr>waitingUsers := [example_profile ''a'' (Some ''alice'') 3]\<rparr>,
      [(''a'', Searching_partner)]) \<and>
   on_find_partner ''a'' ''r2'' 4
     ((run initial two_joined)\<lparr>waitingUsers := [example_profile ''a'' (Some ''alice'') 3]\<rparr>) =
     ((run initial two_joined)
        \<lparr>waitingUsers := [example_profile ''a'' (Some ''alice'') 3,
                          example_profile ''a'' (Some ''alice'') 4]\<rparr>,
      [(''a'', Searching_partner)]) \<and>
   ''a'' \<notin> socketId ` set (waitingUsers (fst (on_stop_chat ''a''
     ((run initial two_joined)
        \<lparr>waitingUsers := [example_profile ''a'' (Some ''alice'') 3,
                          example_profile ''a'' (Some ''alice'') 4]\<rparr>)))) \<and>
   ''a'' \<notin> socketId ` set (waitingUsers (fst (on_disconnect ''a''
     ((run initial two_joined)
        \<lparr>waitingUsers := [example_profile ''a'' (Some ''alice'') 3,
                          example_profile ''a'' (Some ''alice'') 4]\<rparr>)))) \<and>
   find (\<lambda>w. socketId w \<noteq> ''b'')
     (waitingUsers ((run initial two_joined)
        \<lparr>waitingUsers := [example_profile ''a'' (Some ''alice'') 3,
                          example_profile ''a'' (Some ''alice'') 4]\<rparr>)) =
     Some (example_profile ''a'' (Some ''alice'') 3) \<and>
   ''a'' \<notin> socketId ` set (waitingUsers (fst (on_find_partner ''b'' ''r3'' 5
     ((run initial two_joined)
        \<lparr>waitingUsers := [example_profile ''a'' (Some ''alice'') 3,
                          example_profile ''a'' (Some ''alice'') 4]\<rparr>))))"
proof -
  let ?t = "(run initial two_joined)
        \<lparr>waitingUsers := [example_profile ''a'' (Some ''alice'') 3,
                          example_profile ''a'' (Some ''alice'') 4]\<rparr>"
  have h: "map_of (userSockets (run initial two_joined)) ''a'' =
        Some (example_profile ''a'' (Some ''alice'') 1)"
    "getRoomBySocketId (run initial two_joined) ''a'' = None"
    "waitingUsers (run initial two_joined) = []"
    by (simp_all add: two_joined_state) (simp_all add: eval_defs)
  have upd: "(example_profile ''a'' (Some ''alice'') 1)\<lparr>joinedAt := t\<rparr> =
      example_profile ''a'' (Some ''alice'') t" for t
    by (simp add: example_profile_def)
  have b: "map_of (userSockets ?t) ''b'' = Some (example_profile ''b'' None 2) \<and>
      getRoomBySocketId ?t ''b'' = None \<and>
      find (\<lambda>w. socketId w \<noteq> ''b'') (waitingUsers ?t) =
        Some (example_profile ''a'' (Some ''alice'') 3) \<and>
      (''a'' = ''b'' \<or> ''a'' = socketId (example_profile ''a'' (Some ''alice'') 3))"
    by (simp add: two_joined_state) (simp add: eval_defs)
  note inst = find_partner_on_empty_queue [OF refl h, where uuid = "''r1''" and now = 3
        and uuid' = "''r2''" and now' = 4]
  note first = inst [THEN conjunct1]
  note second = inst [THEN conjunct2, THEN conjunct1]
  note stop = inst [THEN conjunct2, THEN conjunct2, THEN conjunct1, rule_format, of ?t]
  note disc = inst [THEN conjunct2, THEN conjunct2, THEN conjunct2, THEN conjunct1, rule_format,
      of ?t]
  note matched = inst [THEN conjunct2, THEN conjunct2, THEN conjunct2, THEN conjunct2,
      rule_format, OF b, where uuid'' = "''r3''" and now'' = 5]
  show ?thesis
    using h first second stop disc matched b
    by (simp only: upd simp_thms)
qed

section \<open>The adapter rooms\<close>

lemma room_sockets_frame:
  "adapter s' = adapter s \<Longrightarrow> room_sockets s' x = room_sockets s x"
  by (simp add: room_sockets_def)

lemma room_sockets_absent:
  "x \<notin> fst ` set (adapter s) \<Longrightarrow> room_sockets s x = []"
  by (auto simp: room_sockets_def filter_empty_conv)

lemma room_sockets_present:
  "room_sockets s x \<noteq> [] \<Longrightarrow> x \<in> fst ` set (adapter s)"
  using room_sockets_absent [of x s] by blast

lemma room_sockets_join_fresh:
  assumes "name \<notin> fst ` set (adapter s)"
  shows "room_sockets (socket_join sid name s) x =
    (if x = name then [sid] else room_sockets s x)"
proof -
  from assms have "(name, sid) \<notin> set (adapter s)" by force
  then show ?thesis
    using room_sockets_absent [OF assms]
    by (simp add: socket_join_def room_sockets_def)
qed

lemma room_sockets_join_second:
  assumes "room_sockets s name = [a]" "a \<noteq> sid"
  shows "room_sockets (socket_join sid name s) x =
    (if x = name then [a, sid] else room_sockets s x)"
proof -
  have "(name, sid) \<notin> set (adapter s)"
  proof
    assume "(name, sid) \<in> set (adapter s)"
    then have "sid \<in> set (room_sockets s name)"
      by (force simp: room_sockets_def)
    with assms show False by simp
  qed
  then show ?thesis
    using assms(1) by (simp add: socket_join_def room_sockets_def)
qed

lemma room_sockets_leave:
  "room_sockets (socket_leave sid name s) x =
    (if x = name then filter (\<lambda>y. y \<noteq> sid) (room_sockets s name) else room_sockets s x)"
proof -
  have "map snd (filter (\<lambda>p. fst p = x) (filter (\<lambda>p. p \<noteq> (name, sid)) xs)) =
        (if x = name then filter (\<lambda>y. y \<noteq> sid) (map snd (filter (\<lambda>p. fst p = name) xs))
         else map snd (filter (\<lambda>p. fst p = x) xs))" for xs
    by (induction xs) auto
  then show ?thesis
    by (simp add: socket_leave_def room_sockets_def)
qed

lemma room_sockets_leave_all:
  "room_sockets (s\<lparr>sockets := cs, adapter := filter (\<lambda>p. snd p \<noteq> sid) (adapter s)\<rparr>) x =
     filter (\<lambda>y. y \<noteq> sid) (room_sockets s x)"
proof -
  have "map snd (filter (\<lambda>p. fst p = x) (filter (\<lambda>p. snd p \<noteq> sid) xs)) =
        filter (\<lambda>y. y \<noteq> sid) (map snd (filter (\<lambda>p. fst p = x) xs))" for xs
    by (induction xs) auto
  then show ?thesis
    by (simp add: room_sockets_def)
qed

section \<open>The events preserve the invariant of the transport\<close>

lemma transport_inv_initial: "transport_inv initial"
  by (simp add: transport_inv_def initial_def)

lemma transport_inv_frame:
  assumes "activeRooms s' = activeRooms s" "userSockets s' = userSockets s"
    "sockets s' = sockets s" "adapter s' = adapter s"
  shows "transport_inv s' = transport_inv s"
  unfolding transport_inv_def room_sockets_def by (simp only: assms)

lemma connected_room_sockets:
  assumes "transport_inv s" "x \<in> fst ` set (sockets s)"
  shows "room_sockets s x = [x]"
  using assms by (auto simp: transport_inv_def)

lemma room_room_sockets:
  assumes "transport_inv s" "p \<in> set (activeRooms s)"
  shows "room_sockets s (fst p) = [socketId (user1 (snd p)), socketId (user2 (snd p))]"
  using assms by (auto simp: transport_inv_def)

lemma room_key_not_socket:
  assumes "transport_inv s" "p \<in> set (activeRooms s)"
  shows "fst p \<notin> fst ` set (sockets s)" "fst p \<in> fst ` set (adapter s)"
proof -
  from assms have two: "room_sockets s (fst p) = [socketId (user1 (snd p)), socketId (user2 (snd p))]"
    by (rule room_room_sockets)
  show "fst p \<notin> fst ` set (sockets s)"
  proof
    assume "fst p \<in> fst ` set (sockets s)"
    with assms(1) have "room_sockets s (fst p) = [fst p]"
      by (rule connected_room_sockets)
    with two show False by simp
  qed
  from two show "fst p \<in> fst ` set (adapter s)"
    by (intro room_sockets_present) simp
qed

lemma socket_in_adapter:
  assumes "transport_inv s" "x \<in> fst ` set (sockets s)"
  shows "x \<in> fst ` set (adapter s)"
proof -
  from assms have "room_sockets s x = [x]" by (rule connected_room_sockets)
  then show ?thesis by (intro room_sockets_present) simp
qed

lemma transport_inv_connect:
  assumes inv: "transport_inv s" and ok: "event_ok s (Connect sid c)"
  shows "transport_inv (fst (step s (Connect sid c)))"
proof (cases "sid \<in> fst ` set (sockets s)")
  case True
  with inv show ?thesis by simp
next
  case False
  let ?t = "s\<lparr>sockets := sockets s @ [(sid, c)]\<rparr>"
  let ?s = "socket_join sid sid ?t"
  from ok have fresh: "sid \<notin> fst ` set (adapter ?t)" and ne: "sid \<noteq> []" by simp_all
  have rs: "room_sockets ?s x = (if x = sid then [sid] else room_sockets s x)" for x
    using room_sockets_join_fresh [OF fresh, of sid x] room_sockets_frame [of ?t s x] by simp
  have fields: "activeRooms ?s = activeRooms s" "userSockets ?s = userSockets s"
    "sockets ?s = sockets s @ [(sid, c)]"
    by (simp_all add: socket_join_def)
  have "\<forall>p \<in> set (activeRooms s). fst p \<noteq> sid"
    using room_key_not_socket(2) [OF inv] ok by auto
  then have "transport_inv ?s"
    using inv ne by (auto simp: transport_inv_def fields rs)
  with False show ?thesis by simp
qed

lemma transport_inv_join_system:
  assumes inv: "transport_inv s" and c: "map_of (sockets s) sid = Some c"
  shows "transport_inv (fst (on_join_system c sid nick now s))"
proof -
  let ?u = "\<lparr>socketId = sid, nickname = nick, joinedAt = now, location = userLocation c,
             ip = clientIP c\<rparr>"
  let ?s = "s\<lparr>userSockets := AList.update sid ?u (userSockets s)\<rparr>"
  from c have "sid \<in> fst ` set (sockets s)"
    using map_of_SomeD [of "sockets s" sid c] by force
  then have "fst ` set (AList.update sid ?u (userSockets s)) \<subseteq> fst ` set (sockets s)"
    using inv by (simp add: dom_update transport_inv_def)
  moreover have "room_sockets ?s x = room_sockets s x" for x
    by (simp add: room_sockets_def)
  ultimately have "transport_inv ?s"
    using inv by (simp add: transport_inv_def)
  then show ?thesis
    by (simp add: on_join_system_def Let_def)
qed

lemma room_sockets_matched:
  assumes fresh: "uuid \<notin> fst ` set (adapter s)" and conn: "socketId m \<in> fst ` set (sockets s)"
    and diff: "socketId m \<noteq> sid"
  shows "room_sockets (matched_state sid u m uuid now s) x =
    (if x = uuid then [sid, socketId m] else room_sockets s x)"
proof -
  let ?t = "s\<lparr>waitingUsers :=
                  filter (\<lambda>w. socketId w \<noteq> socketId m)
                    (filter (\<lambda>w. socketId w \<noteq> sid) (waitingUsers s)),
                activeRooms := AList.update uuid (matched_room u m uuid now) (activeRooms s)\<rparr>"
  have t: "room_sockets ?t y = room_sockets s y" for y
    by (simp add: room_sockets_def)
  from fresh have "uuid \<notin> fst ` set (adapter ?t)" by simp
  then have one: "room_sockets (socket_join sid uuid ?t) y =
      (if y = uuid then [sid] else room_sockets s y)" for y
    using room_sockets_join_fresh [of uuid ?t sid y] t by simp
  then have "room_sockets (socket_join sid uuid ?t) uuid = [sid]" by simp
  then have "room_sockets (socket_join (socketId m) uuid (socket_join sid uuid ?t)) x =
      (if x = uuid then [sid, socketId m] else room_sockets (socket_join sid uuid ?t) x)"
    using diff by (intro room_sockets_join_second) auto
  with one conn show ?thesis
    by (simp add: matched_state_def Let_def)
qed

lemma transport_inv_matched:
  assumes cinv: "chat_inv s" and inv: "transport_inv s"
    and u: "map_of (userSockets s) sid = Some u"
    and m: "find (\<lambda>w. socketId w \<noteq> sid) (waitingUsers s) = Some m"
    and fresh: "uuid \<notin> fst ` set (adapter s)"
  shows "transport_inv (matched_state sid u m uuid now s)"
proof -
  let ?s = "matched_state sid u m uuid now s"
  let ?r = "matched_room u m uuid now"
  from cinv u have su: "socketId u = sid"
    using registered_socketId [of s sid u] by (simp add: chat_inv_def)
  from m have mw: "m \<in> set (waitingUsers s)" and ms: "socketId m \<noteq> sid"
    by (auto simp: find_Some_iff)
  from cinv mw have "socketId m \<in> fst ` set (userSockets s)"
    by (auto simp: chat_inv_def waiting_inv_def)
  with inv have conn: "socketId m \<in> fst ` set (sockets s)"
    by (auto simp: transport_inv_def)
  have rs: "room_sockets ?s x = (if x = uuid then [sid, socketId m] else room_sockets s x)" for x
    by (rule room_sockets_matched [OF fresh conn ms])
  have "room_sockets ?s (fst c) = [fst c]" if "c \<in> set (sockets s)" for c
  proof -
    from that have "fst c \<in> fst ` set (sockets s)" by simp
    then have "fst c \<in> fst ` set (adapter s)" "room_sockets s (fst c) = [fst c]"
      using socket_in_adapter [OF inv] connected_room_sockets [OF inv] by blast+
    with fresh show ?thesis by (auto simp: rs)
  qed
  moreover have "room_sockets ?s (fst p) = [socketId (user1 (snd p)), socketId (user2 (snd p))]"
    if "p \<in> set (AList.update uuid ?r (activeRooms s))" for p
  proof (cases "p = (uuid, ?r)")
    case True
    then show ?thesis
      using su by (simp add: rs matched_room_def)
  next
    case False
    with that have old: "p \<in> set (activeRooms s)"
      using set_update_subset [of uuid ?r "activeRooms s"] by auto
    then have "fst p \<noteq> uuid"
      using room_key_not_socket(2) [OF inv old] fresh by auto
    then show ?thesis
      using room_room_sockets [OF inv old] by (simp add: rs)
  qed
  ultimately show ?thesis
    using inv by (simp add: transport_inv_def matched_state_fields)
qed

lemma transport_inv_find_partner:
  assumes cinv: "chat_inv s" and inv: "transport_inv s"
    and fresh: "uuid \<notin> fst ` set (adapter s)"
  shows "transport_inv (fst (on_find_partner sid uuid now s))"
proof (cases "map_of (userSockets s) sid")
  case None
  with inv show ?thesis by (simp add: find_partner_unregistered)
next
  case (Some u)
  note u = this
  show ?thesis
  proof (cases "getRoomBySocketId s sid")
    case (Some r)
    with u inv show ?thesis
      by (simp add: find_partner_in_room)
  next
    case None
    note free = this
    show ?thesis
    proof (cases "find (\<lambda>w. socketId w \<noteq> sid) (waitingUsers s)")
      case None
      have "transport_inv (s\<lparr>waitingUsers := waitingUsers s @ [u\<lparr>joinedAt := now\<rparr>]\<rparr>)"
        using inv transport_inv_frame [of "s\<lparr>waitingUsers := waitingUsers s @ [u\<lparr>joinedAt := now\<rparr>]\<rparr>" s]
        by simp
      with u free None show ?thesis
        by (simp add: find_partner_no_match)
    next
      case (Some m)
      with u free show ?thesis
        by (simp add: find_partner_match transport_inv_matched [OF cinv inv u Some fresh])
    qed
  qed
qed

lemma transport_inv_send_to_room:
  assumes cinv: "chat_inv s" and inv: "transport_inv s"
  shows "transport_inv (fst (send_to_room sid m now s))"
proof (cases "getRoomBySocketId s sid")
  case None
  with inv show ?thesis by (simp add: send_to_room_def)
next
  case (Some r)
  let ?r = "r\<lparr>messages := messages r @ [m\<lparr>timestamp := now\<rparr>]\<rparr>"
  let ?s = "s\<lparr>activeRooms := AList.update (room_id r) ?r (activeRooms s)\<rparr>"
  from cinv have rinv: "rooms_inv s" by (simp add: chat_inv_def)
  have old: "(room_id r, r) \<in> set (activeRooms s)"
    using getRoom_Some_map_of [OF Some rinv] by (rule map_of_SomeD)
  have rs: "room_sockets ?s x = room_sockets s x" for x
    by (simp add: room_sockets_def)
  have "room_sockets s (fst p) = [socketId (user1 (snd p)), socketId (user2 (snd p))]"
    if "p \<in> set (AList.update (room_id r) ?r (activeRooms s))" for p
  proof (cases "p = (room_id r, ?r)")
    case True
    then show ?thesis
      using room_room_sockets [OF inv old] by simp
  next
    case False
    with that have "p \<in> set (activeRooms s)"
      using set_update_subset [of "room_id r" ?r "activeRooms s"] by auto
    then show ?thesis by (rule room_room_sockets [OF inv])
  qed
  then have "transport_inv ?s"
    using inv by (simp add: transport_inv_def rs)
  with Some show ?thesis
    by (simp add: send_to_room_def Let_def addMessageToRoom_found [OF rinv Some])
qed

lemma transport_inv_removeWaitingUser:
  "transport_inv (removeWaitingUser sid s) = transport_inv s"
  by (rule transport_inv_frame) (simp_all add: removeWaitingUser_def)

lemma rooms_inv_removeWaitingUser: "rooms_inv (removeWaitingUser sid s) = rooms_inv s"
  by (simp add: rooms_inv_def room_members_def removeWaitingUser_def)

lemma transport_inv_stop_chat:
  assumes cinv: "chat_inv s" and inv: "transport_inv s"
  shows "transport_inv (fst (on_stop_chat sid s))"
proof (cases "getRoomBySocketId s sid")
  case None
  with inv show ?thesis
    by (simp add: on_stop_chat_def Let_def transport_inv_removeWaitingUser)
next
  case (Some r)
  let ?k = "room_id r"
  let ?s = "socket_leave sid ?k (removeRoom ?k (removeWaitingUser sid s))"
  from cinv have rinv: "rooms_inv s" by (simp add: chat_inv_def)
  have old: "(?k, r) \<in> set (activeRooms s)"
    using getRoom_Some_map_of [OF Some rinv] by (rule map_of_SomeD)
  have fields: "activeRooms ?s = AList.delete ?k (activeRooms s)"
    "userSockets ?s = userSockets s" "sockets ?s = sockets s"
    by (simp_all add: socket_leave_def removeRoom_def removeWaitingUser_def)
  have "room_sockets (removeRoom ?k (removeWaitingUser sid s)) x = room_sockets s x" for x
    by (simp add: room_sockets_def removeRoom_def removeWaitingUser_def)
  then have rs: "x \<noteq> ?k \<Longrightarrow> room_sockets ?s x = room_sockets s x" for x
    by (simp add: room_sockets_leave)
  have "room_sockets ?s (fst c) = [fst c]" if "c \<in> set (sockets s)" for c
  proof -
    from that have conn: "fst c \<in> fst ` set (sockets s)" by simp
    with room_key_not_socket(1) [OF inv old] have "fst c \<noteq> ?k" by force
    then show ?thesis
      using connected_room_sockets [OF inv conn] by (simp add: rs)
  qed
  moreover have "room_sockets ?s (fst p) = [socketId (user1 (snd p)), socketId (user2 (snd p))]"
    if "p \<in> set (AList.delete ?k (activeRooms s))" for p
  proof -
    from that have "fst p \<noteq> ?k" "p \<in> set (activeRooms s)"
      using delete_notin_dom [of ?k "activeRooms s"] set_delete_subset [of ?k "activeRooms s"]
      by force+
    then show ?thesis
      using room_room_sockets [OF inv] by (simp add: rs)
  qed
  ultimately have "transport_inv ?s"
    using inv by (simp add: transport_inv_def fields)
  with Some show ?thesis
    by (simp add: on_stop_chat_def Let_def)
qed

lemma transport_inv_disconnect:
  assumes cinv: "chat_inv s" and inv: "transport_inv s"
  shows "transport_inv (fst (step s (Disconnect sid)))"
proof (cases "map_of (sockets s) sid")
  case None
  with inv show ?thesis by simp
next
  case (Some c)
  let ?t = "s\<lparr>sockets := AList.delete sid (sockets s),
               adapter := filter (\<lambda>p. snd p \<noteq> sid) (adapter s)\<rparr>"
  let ?s = "fst (on_disconnect sid ?t)"
  have ct: "chat_inv ?t"
    using cinv chat_inv_frame [of ?t s] by simp
  then have cs: "chat_inv ?s" by (rule chat_inv_disconnect)
  have fields: "userSockets ?s = AList.delete sid (userSockets s)"
    "sockets ?s = AList.delete sid (sockets s)"
    "adapter ?s = adapter ?t"
    by (simp_all add: disconnect_state removeWaitingUser_def removeRoom_def split: option.splits)
  have rooms: "set (activeRooms ?s) \<subseteq> set (activeRooms s)"
    using set_delete_subset [of _ "activeRooms s"]
    by (auto simp: disconnect_state removeWaitingUser_def removeRoom_def split: option.splits)
  have gone: "sid \<notin> set (room_members ?s)"
  proof -
    from cs have "set (room_members ?s) \<subseteq> fst ` set (userSockets ?s)"
      by (simp add: chat_inv_def members_inv_def)
    then show ?thesis
      using delete_notin_dom [of sid "userSockets s"] by (auto simp: fields)
  qed
  have rs: "room_sockets ?s x = filter (\<lambda>y. y \<noteq> sid) (room_sockets s x)" for x
    using room_sockets_frame [OF fields(3), of x] room_sockets_leave_all [where cs = "AList.delete sid (sockets s)" and sid = sid and s = s and x = x]
    by simp
  have "fst ` set (userSockets ?s) \<subseteq> fst ` set (sockets ?s)"
    using inv by (auto simp: fields keys_delete transport_inv_def)
  moreover have "[] \<notin> fst ` set (sockets ?s)"
    using inv by (auto simp: fields keys_delete transport_inv_def)
  moreover have "room_sockets ?s (fst c) = [fst c]" if "c \<in> set (sockets ?s)" for c
  proof -
    from that have "fst c \<in> fst ` set (AList.delete sid (sockets s))"
      by (simp add: fields)
    then have "fst c \<in> fst ` set (sockets s)" "fst c \<noteq> sid"
      by (auto simp: keys_delete)
    then show ?thesis
      using connected_room_sockets [OF inv] by (simp add: rs)
  qed
  moreover have "room_sockets ?s (fst p) = [socketId (user1 (snd p)), socketId (user2 (snd p))]"
    if "p \<in> set (activeRooms ?s)" for p
  proof -
    from that gone have "socketId (user1 (snd p)) \<noteq> sid" "socketId (user2 (snd p)) \<noteq> sid"
      by (auto simp: room_members_def set_members_of)
    moreover from that rooms have "p \<in> set (activeRooms s)" by auto
    ultimately show ?thesis
      using room_room_sockets [OF inv] by (simp add: rs)
  qed
  ultimately have "transport_inv ?s"
    by (simp add: transport_inv_def)
  with Some show ?thesis by simp
qed

lemma transport_inv_handle:
  assumes "chat_inv s" "transport_inv s" "map_of (sockets s) sid = Some c"
    "event_ok s (Request sid req)"
  shows "transport_inv (fst (handle c sid req s))"
  using assms
  by (cases req)
    (simp_all add: transport_inv_join_system transport_inv_find_partner
      transport_inv_send_to_room transport_inv_stop_chat on_send_message_def
      on_send_media_message_def on_send_voice_message_def)

lemma transport_inv_step:
  assumes "chat_inv s" "transport_inv s" "event_ok s e"
  shows "transport_inv (fst (step s e))"
proof (cases e)
  case (Connect sid c)
  with assms show ?thesis by (simp only: transport_inv_connect)
next
  case (Request sid req)
  with assms show ?thesis
    by (cases "map_of (sockets s) sid") (simp_all add: transport_inv_handle)
next
  case (Disconnect sid)
  with assms show ?thesis by (simp only: transport_inv_disconnect)
qed

lemma transport_inv_run:
  assumes "chat_inv s" "transport_inv s" "admissible s es"
  shows "transport_inv (run s es)"
  using assms
  by (induction es arbitrary: s) (simp_all add: chat_inv_step transport_inv_step)

lemma transport_inv_reachable:
  "admissible initial es \<Longrightarrow> transport_inv (run initial es)"
  by (rule transport_inv_run [OF chat_inv_initial transport_inv_initial])

lemma run_append: "run s (es @ es') = run (run s es) es'"
  by (induction es arbitrary: s) simp_all

lemma admissible_append:
  "admissible s (es @ es') \<longleftrightarrow> admissible s es \<and> admissible (run s es) es'"
  by (induction es arbitrary: s) simp_all

section \<open>Members of a room are registered and connected\<close>

lemma member_connected:
  assumes "chat_inv s" "transport_inv s" "x \<in> set (room_members s)"
  shows "x \<in> fst ` set (sockets s)"
  using assms by (auto simp: chat_inv_def members_inv_def transport_inv_def)

lemma room_of_member:
  assumes "chat_inv s" "getRoomBySocketId s sid = Some r"
  shows "(room_id r, r) \<in> set (activeRooms s)"
    and "socketId (user1 r) \<in> set (room_members s)"
    and "socketId (user2 r) \<in> set (room_members s)"
    and "socketId (user1 r) \<noteq> socketId (user2 r)"
    and "sid = socketId (user1 r) \<or> sid = socketId (user2 r)"
proof -
  from assms(1) have rinv: "rooms_inv s" by (simp add: chat_inv_def)
  show in_rooms: "(room_id r, r) \<in> set (activeRooms s)"
    using getRoom_Some_map_of [OF assms(2) rinv] by (rule map_of_SomeD)
  then show "socketId (user1 r) \<in> set (room_members s)"
    and "socketId (user2 r) \<in> set (room_members s)"
    by (force simp: room_members_def set_members_of)+
  from rinv have "distinct (members_of (activeRooms s))"
    by (simp add: rooms_inv_def room_members_def)
  from room_members_differ [OF this in_rooms]
  show "socketId (user1 r) \<noteq> socketId (user2 r)" by simp
  from getRoom_Some(2) [OF assms(2)]
  show "sid = socketId (user1 r) \<or> sid = socketId (user2 r)"
    by (auto simp: is_member_def)
qed

section \<open>Sending a message\<close>

text \<open>
  Claim C7. In a state reached by an admissible sequence of events, send-message from a
  connection that is in a room appends one message (with the generated id, the sender's id
  and a time stamp) to the log of that room, changes no other room and nothing else in the
  state, and delivers one new-message event to each of the two members of the room, of
  which the sender is one.
\<close>

theorem send_message_in_room:
  assumes "admissible initial es" "s = run initial es" "getRoomBySocketId s sid = Some r"
    "m = \<lparr>message_id = uuid, message_type = Text_message, content = msg, senderId = sid,
          timestamp = now\<rparr>"
    "s' = fst (step s (Request sid (Send_message msg uuid now now')))"
  shows "step s (Request sid (Send_message msg uuid now now')) =
           (s\<lparr>activeRooms :=
                AList.update (room_id r) (r\<lparr>messages := messages r @ [m\<lparr>timestamp := now'\<rparr>]\<rparr>)
                  (activeRooms s)\<rparr>,
            [(socketId (user1 r), New_message m), (socketId (user2 r), New_message m)]) \<and>
         map_of (activeRooms s') (room_id r) =
           Some (r\<lparr>messages := messages r @ [m\<lparr>timestamp := now'\<rparr>]\<rparr>) \<and>
         (\<forall>k. k \<noteq> room_id r \<longrightarrow> map_of (activeRooms s') k = map_of (activeRooms s) k) \<and>
         socketId (user1 r) \<noteq> socketId (user2 r) \<and>
         (sid = socketId (user1 r) \<or> sid = socketId (user2 r))"
proof -
  let ?r = "r\<lparr>messages := messages r @ [m\<lparr>timestamp := now'\<rparr>]\<rparr>"
  let ?s = "s\<lparr>activeRooms := AList.update (room_id r) ?r (activeRooms s)\<rparr>"
  have cinv: "chat_inv s" and tinv: "transport_inv s"
    using assms(1,2) by (simp_all add: chat_inv_reachable transport_inv_reachable)
  then have rinv: "rooms_inv s" by (simp add: chat_inv_def)
  note room = room_of_member [OF cinv assms(3)]
  have "sid \<in> fst ` set (sockets s)"
    using member_connected [OF cinv tinv] getRoom_Some(3) [OF assms(3)] by simp
  then obtain c where c: "map_of (sockets s) sid = Some c"
    using map_of_eq_None_iff [of "sockets s" sid] by auto
  have "room_sockets ?s (room_id r) = room_sockets s (room_id r)"
    by (simp add: room_sockets_def)
  also have "\<dots> = [socketId (user1 r), socketId (user2 r)]"
    using room_room_sockets [OF tinv room(1)] by simp
  finally have out: "io_to_emit ?s (room_id r) (New_message m) =
      [(socketId (user1 r), New_message m), (socketId (user2 r), New_message m)]"
    by (simp add: io_to_emit_def)
  have "send_to_room sid m now' s = (?s, io_to_emit ?s (room_id r) (New_message m))"
    using assms(3) by (simp add: send_to_room_def Let_def addMessageToRoom_found [OF rinv assms(3)])
  with c out have step: "step s (Request sid (Send_message msg uuid now now')) =
      (?s, [(socketId (user1 r), New_message m), (socketId (user2 r), New_message m)])"
    by (simp add: on_send_message_def assms(4))
  then have s': "activeRooms s' = AList.update (room_id r) ?r (activeRooms s)"
    by (simp add: assms(5))
  show ?thesis
    using step room(4,5) by (simp add: s' update_conv')
qed

theorem send_message_in_room_witness:
  "admissible initial four_paired \<and>
   getRoomBySocketId (run initial four_paired) ''a'' = Some room_ba \<and>
   snd (step (run initial four_paired) (Request ''a'' (Send_message ''hello'' ''m1'' 9 10))) =
     [(''b'', New_message \<lparr>message_id = ''m1'', message_type = Text_message,
                           content = ''hello'', senderId = ''a'', timestamp = 9\<rparr>),
      (''a'', New_message \<lparr>message_id = ''m1'', message_type = Text_message,
                           content = ''hello'', senderId = ''a'', timestamp = 9\<rparr>)] \<and>
   map_of (activeRooms (fst (step (run initial four_paired)
             (Request ''a'' (Send_message ''hello'' ''m1'' 9 10))))) ''r1'' =
     Some (room_ba\<lparr>messages :=
             [\<lparr>message_id = ''m1'', message_type = Text_message, content = ''hello'',
               senderId = ''a'', timestamp = 10\<rparr>]\<rparr>) \<and>
   map_of (activeRooms (fst (step (run initial four_paired)
             (Request ''a'' (Send_message ''hello'' ''m1'' 9 10))))) ''r3'' = Some room_dc"
proof -
  have adm: "admissible initial four_paired"
    by (simp add: eval_defs)
  have a: "getRoomBySocketId (run initial four_paired) ''a'' = Some room_ba"
    by (simp add: four_paired_state) (simp add: eval_defs)
  have r3: "map_of (activeRooms (run initial four_paired)) ''r3'' = Some room_dc"
    by (simp add: four_paired_state)
  have proj: "room_id room_ba = ''r1''" "socketId (user1 room_ba) = ''b''"
    "socketId (user2 room_ba) = ''a''" "messages room_ba = []"
    by (simp_all add: room_ba_def example_profile_def)
  have ne: "''r3'' \<noteq> ''r1''" by simp
  note inst = send_message_in_room [OF adm refl a refl refl,
      where msg = "''hello''" and uuid = "''m1''" and now = 9 and now' = 10]
  have "snd (step (run initial four_paired) (Request ''a'' (Send_message ''hello'' ''m1'' 9 10))) =
     [(''b'', New_message \<lparr>message_id = ''m1'', message_type = Text_message,
                           content = ''hello'', senderId = ''a'', timestamp = 9\<rparr>),
      (''a'', New_message \<lparr>message_id = ''m1'', message_type = Text_message,
                           content = ''hello'', senderId = ''a'', timestamp = 9\<rparr>)]"
    using inst [THEN conjunct1] by (simp add: proj del: step.simps)
  moreover have "map_of (activeRooms (fst (step (run initial four_paired)
             (Request ''a'' (Send_message ''hello'' ''m1'' 9 10))))) ''r1'' =
     Some (room_ba\<lparr>messages :=
             [\<lparr>message_id = ''m1'', message_type = Text_message, content = ''hello'',
               senderId = ''a'', timestamp = 10\<rparr>]\<rparr>)"
    using inst [THEN conjunct2, THEN conjunct1] by (simp add: proj del: step.simps)
  moreover have "map_of (activeRooms (fst (step (run initial four_paired)
             (Request ''a'' (Send_message ''hello'' ''m1'' 9 10))))) ''r3'' = Some room_dc"
    using inst [THEN conjunct2, THEN conjunct2, THEN conjunct1, rule_format, of "''r3''"] r3
    by (simp add: proj del: step.simps)
  ultimately show ?thesis
    using adm a by (simp del: step.simps)
qed

section \<open>Disconnect\<close>

lemma partner_of_member:
  assumes "chat_inv s" "getRoomBySocketId s sid = Some r"
  shows "getPartnerSocketId s (room_id r) sid =
    Some (if socketId (user1 r) = sid then socketId (user2 r) else socketId (user1 r))"
proof -
  from assms(1) have rinv: "rooms_inv s" by (simp add: chat_inv_def)
  have "map_of (activeRooms s) (room_id r) = Some r"
    by (rule getRoom_Some_map_of [OF assms(2) rinv])
  then show ?thesis
    using room_of_member(5) [OF assms] by (auto simp: getPartnerSocketId_def)
qed

lemma disconnect_twice:
  assumes "chat_inv s"
  shows "on_disconnect sid (fst (on_disconnect sid s)) = (fst (on_disconnect sid s), [])"
proof -
  let ?s = "fst (on_disconnect sid s)"
  have cs: "chat_inv ?s" by (rule chat_inv_disconnect [OF assms])
  have users: "userSockets ?s = AList.delete sid (userSockets s)"
    by (simp add: disconnect_state removeWaitingUser_def removeRoom_def split: option.splits)
  then have unreg: "sid \<notin> fst ` set (userSockets ?s)"
    using delete_notin_dom [of sid "userSockets s"] by simp
  have "sid \<notin> socketId ` set (waitingUsers ?s)"
    by (auto simp: disconnect_state removeWaitingUser_def removeRoom_def split: option.splits)
  then have w: "removeWaitingUser sid ?s = ?s"
    by (rule removeWaitingUser_absent)
  from unreg have u: "AList.delete sid (userSockets ?s) = userSockets ?s"
    by simp
  from cs unreg have "sid \<notin> set (room_members ?s)"
    by (auto simp: chat_inv_def members_inv_def)
  then have "getRoomBySocketId ?s sid = None"
    by (simp add: getRoom_None)
  then show ?thesis
    by (simp add: on_disconnect_def [of sid ?s] Let_def w u)
qed

text \<open>
  Claim C5. In a state reached by an admissible sequence of events, the disconnect of a
  connection that is in a room delivers exactly one event, partner-disconnected to the
  other member of the room; afterwards the room is gone (no room is found for either
  member), and the connection has no waiting entry and no profile. Running the disconnect
  handler once more on the resulting state changes nothing and delivers nothing, and so does
  a second disconnect event.
\<close>

theorem disconnect_of_room_member:
  assumes "admissible initial es" "s = run initial es" "getRoomBySocketId s sid = Some r"
    "partner = (if socketId (user1 r) = sid then socketId (user2 r) else socketId (user1 r))"
    "s' = fst (step s (Disconnect sid))"
  shows "snd (step s (Disconnect sid)) = [(partner, Partner_disconnected)] \<and>
         partner \<noteq> sid \<and>
         getRoomBySocketId s' sid = None \<and>
         getRoomBySocketId s' partner = None \<and>
         map_of (activeRooms s') (room_id r) = None \<and>
         sid \<notin> socketId ` set (waitingUsers s') \<and>
         map_of (userSockets s') sid = None \<and>
         on_disconnect sid s' = (s', []) \<and>
         step s' (Disconnect sid) = (s', [])"
proof -
  let ?t = "s\<lparr>sockets := AList.delete sid (sockets s),
               adapter := filter (\<lambda>p. snd p \<noteq> sid) (adapter s)\<rparr>"
  let ?t2 = "(removeWaitingUser sid ?t)
               \<lparr>userSockets := AList.delete sid (userSockets (removeWaitingUser sid ?t))\<rparr>"
  have cinv: "chat_inv s" and tinv: "transport_inv s"
    using assms(1,2) by (simp_all add: chat_inv_reachable transport_inv_reachable)
  note room = room_of_member [OF cinv assms(3)]
  have ps: "partner \<noteq> sid" and pm: "partner \<in> set (room_members s)"
    using room(2-5) by (auto simp: assms(4))
  have pc: "partner \<in> fst ` set (sockets s)"
    by (rule member_connected [OF cinv tinv pm])
  moreover from tinv have "[] \<notin> fst ` set (sockets s)"
    by (simp add: transport_inv_def)
  ultimately have pne: "partner \<noteq> []"
    by blast
  have "sid \<in> fst ` set (sockets s)"
    using member_connected [OF cinv tinv] getRoom_Some(3) [OF assms(3)] by simp
  then obtain c where c: "map_of (sockets s) sid = Some c"
    using map_of_eq_None_iff [of "sockets s" sid] by auto
  have ct: "chat_inv ?t"
    using cinv chat_inv_frame [of ?t s] by simp
  have rt2: "getRoomBySocketId ?t2 sid = Some r"
    using assms(3) by (simp add: getRoomBySocketId_def removeWaitingUser_def)
  have "getPartnerSocketId ?t2 (room_id r) sid = getPartnerSocketId s (room_id r) sid"
    by (simp add: getPartnerSocketId_def removeWaitingUser_def)
  then have partner: "getPartnerSocketId ?t2 (room_id r) sid = Some partner"
    using partner_of_member [OF cinv assms(3)] by (simp add: assms(4))
  have "room_sockets ?t2 partner = room_sockets ?t partner"
    by (rule room_sockets_frame) (simp add: removeWaitingUser_def)
  also have "\<dots> = filter (\<lambda>y. y \<noteq> sid) (room_sockets s partner)"
    by (rule room_sockets_leave_all)
  also have "\<dots> = [partner]"
    using connected_room_sockets [OF tinv pc] ps by simp
  finally have "emit_to_partner ?t2 r sid Partner_disconnected = [(partner, Partner_disconnected)]"
    using partner pne by (simp add: emit_to_partner_def io_to_emit_def)
  with rt2 have "on_disconnect sid ?t =
      (removeRoom (room_id r) ?t2, [(partner, Partner_disconnected)])"
    by (simp add: on_disconnect_def [of sid ?t] Let_def)
  with c have step: "step s (Disconnect sid) =
      (removeRoom (room_id r) ?t2, [(partner, Partner_disconnected)])"
    by simp
  then have s': "s' = fst (on_disconnect sid ?t)"
    using c by (simp add: assms(5))
  from step have fields: "activeRooms s' = AList.delete (room_id r) (activeRooms s)"
    "userSockets s' = AList.delete sid (userSockets s)"
    "sockets s' = AList.delete sid (sockets s)"
    "waitingUsers s' = filter (\<lambda>user. socketId user \<noteq> sid) (waitingUsers s)"
    by (simp_all add: assms(5) removeRoom_def removeWaitingUser_def)
  from cinv have rinv: "rooms_inv s" by (simp add: chat_inv_def)
  have "room_members s' = room_members (removeRoom (room_id r) s)"
    by (simp add: room_members_def fields removeRoom_def)
  then have "sid \<notin> set (room_members s')" "partner \<notin> set (room_members s')"
    using members_removed [OF rinv assms(3)] by (auto simp: assms(4))
  then have "getRoomBySocketId s' sid = None" "getRoomBySocketId s' partner = None"
    by (simp_all add: getRoom_None)
  moreover have "map_of (activeRooms s') (room_id r) = None"
    using delete_notin_dom [of "room_id r" "activeRooms s"]
    by (simp add: fields map_of_eq_None_iff)
  moreover have "sid \<notin> socketId ` set (waitingUsers s')"
    by (auto simp: fields)
  moreover have "map_of (userSockets s') sid = None"
    using delete_notin_dom [of sid "userSockets s"]
    by (simp add: fields map_of_eq_None_iff)
  moreover have "on_disconnect sid s' = (s', [])"
    unfolding s' by (rule disconnect_twice [OF ct])
  moreover have "map_of (sockets s') sid = None"
    using delete_notin_dom [of sid "sockets s"]
    by (simp add: fields map_of_eq_None_iff)
  then have "step s' (Disconnect sid) = (s', [])" by simp
  ultimately show ?thesis
    using step ps by simp
qed

theorem disconnect_of_room_member_witness:
  "admissible initial four_paired \<and>
   getRoomBySocketId (run initial four_paired) ''a'' = Some room_ba \<and>
   snd (step (run initial four_paired) (Disconnect ''a'')) = [(''b'', Partner_disconnected)] \<and>
   getRoomBySocketId (fst (step (run initial four_paired) (Disconnect ''a''))) ''a'' = None \<and>
   getRoomBySocketId (fst (step (run initial four_paired) (Disconnect ''a''))) ''b'' = None \<and>
   on_disconnect ''a'' (fst (step (run initial four_paired) (Disconnect ''a''))) =
     (fst (step (run initial four_paired) (Disconnect ''a'')), [])"
proof -
  have adm: "admissible initial four_paired"
    by (simp add: eval_defs)
  have a: "getRoomBySocketId (run initial four_paired) ''a'' = Some room_ba"
    by (simp add: four_paired_state) (simp add: eval_defs)
  have proj: "(if socketId (user1 room_ba) = ''a'' then socketId (user2 room_ba)
               else socketId (user1 room_ba)) = ''b''"
    by (simp add: room_ba_def example_profile_def)
  note inst = disconnect_of_room_member [OF adm refl a refl refl]
  show ?thesis
    using adm a inst by (simp add: proj del: step.simps)
qed

section \<open>Pairing with a waiting connection\<close>

lemma update_fresh_key: "k \<notin> fst ` set al \<Longrightarrow> AList.update k v al = al @ [(k, v)]"
  by (induction al) auto

lemma find_member_append:
  assumes "sid \<notin> set (members_of rs)" "is_member sid r"
  shows "find (is_member sid) (map snd (rs @ [(k, r)])) = Some r"
  using assms by (induction rs) (auto simp: is_member_def)

text \<open>
  Claim C2. In a state reached by an admissible sequence of events, let the queue hold the
  single entry a, of another connection, and let the requester be registered with profile u
  and be in no room. Then find-partner (with a fresh room id) empties the queue, adds exactly
  one room, whose members are the requester and the waiting connection, and delivers exactly
  two partner-found events: to the requester with the waiting connection's id, nickname (or
  Anonymous) and location summary, and to the waiting connection with the requester's. The
  distance that each event carries in its location summary is the distance of the room, and
  when a summary is absent the distance of the room is null.
\<close>

theorem find_partner_pairs_with_waiting:
  assumes "admissible initial (es @ [Request sid (Find_partner uuid now)])"
    "s = run initial es" "waitingUsers s = [a]" "socketId a \<noteq> sid"
    "map_of (userSockets s) sid = Some u" "getRoomBySocketId s sid = None"
    "r = \<lparr>room_id = uuid, user1 = u, user2 = a, createdAt = now, messages = [],
          distance = room_distance u a\<rparr>"
    "s' = fst (step s (Request sid (Find_partner uuid now)))"
  shows "snd (step s (Request sid (Find_partner uuid now))) =
           [(sid, Partner_found
                    \<lparr>roomId = uuid, partnerId = socketId a,
                     partner_nickname = nickname_or_anonymous (nickname a),
                     partner_location = location_summary (location a) (distance r)\<rparr>),
            (socketId a, Partner_found
                    \<lparr>roomId = uuid, partnerId = sid,
                     partner_nickname = nickname_or_anonymous (nickname u),
                     partner_location = location_summary (location u) (distance r)\<rparr>)] \<and>
         waitingUsers s' = [] \<and>
         activeRooms s' = activeRooms s @ [(uuid, r)] \<and>
         socketId (user1 r) = sid \<and> socketId (user2 r) = socketId a \<and>
         getRoomBySocketId s' sid = Some r \<and>
         getRoomBySocketId s' (socketId a) = Some r \<and>
         (location a = None \<or> location u = None \<longrightarrow> distance r = None)"
proof -
  let ?e = "Request sid (Find_partner uuid now)"
  have adm: "admissible initial es" and ok: "event_ok s ?e"
    using assms(1,2) by (simp_all add: admissible_append)
  have cinv: "chat_inv s" and tinv: "transport_inv s"
    using adm assms(2) by (simp_all add: chat_inv_reachable transport_inv_reachable)
  from ok have fresh: "uuid \<notin> fst ` set (adapter s)" by simp
  have su: "socketId u = sid"
    using cinv registered_socketId [OF _ assms(5)] by (simp add: chat_inv_def)
  have m: "find (\<lambda>w. socketId w \<noteq> sid) (waitingUsers s) = Some a"
    using assms(3,4) by simp
  have r: "r = matched_room u a uuid now"
    by (simp add: assms(7) matched_room_def)
  have areg: "socketId a \<in> fst ` set (userSockets s)"
    and afree: "socketId a \<notin> set (members_of (activeRooms s))"
    using cinv assms(3) by (auto simp: chat_inv_defs)
  from tinv areg have aconn: "socketId a \<in> fst ` set (sockets s)"
    by (auto simp: transport_inv_def)
  from assms(5) have "sid \<in> fst ` set (userSockets s)"
    using map_of_SomeD [of "userSockets s" sid u] by force
  with tinv have "sid \<in> fst ` set (sockets s)"
    by (auto simp: transport_inv_def)
  then obtain c where c: "map_of (sockets s) sid = Some c"
    using map_of_eq_None_iff [of "sockets s" sid] by auto
  have rs: "room_sockets (matched_state sid u a uuid now s) (socketId a) = [socketId a]"
    using room_sockets_matched [OF fresh aconn assms(4), of u now "socketId a"]
      connected_room_sockets [OF tinv aconn] socket_in_adapter [OF tinv aconn] fresh
    by auto
  have step: "step s ?e =
      (matched_state sid u a uuid now s,
       [(sid, Partner_found
                    \<lparr>roomId = uuid, partnerId = socketId a,
                     partner_nickname = nickname_or_anonymous (nickname a),
                     partner_location = location_summary (location a) (room_distance u a)\<rparr>),
        (socketId a, Partner_found
                    \<lparr>roomId = uuid, partnerId = sid,
                     partner_nickname = nickname_or_anonymous (nickname u),
                     partner_location = location_summary (location u) (room_distance u a)\<rparr>)])"
    using c by (simp add: find_partner_match [OF assms(5,6) m] io_to_emit_def rs)
  have "uuid \<notin> fst ` set (activeRooms s)"
    using room_key_not_socket(2) [OF tinv] fresh by auto
  then have rooms: "activeRooms s' = activeRooms s @ [(uuid, r)]"
    using step by (simp add: assms(8) matched_state_fields r update_fresh_key)
  have w: "waitingUsers s' = []"
    using step by (simp add: assms(8) matched_state_fields assms(3,4))
  have sfree: "sid \<notin> set (members_of (activeRooms s))"
    using assms(6) by (simp add: getRoom_None room_members_def)
  have "getRoomBySocketId s' sid = Some r" "getRoomBySocketId s' (socketId a) = Some r"
    using find_member_append [OF sfree, of r uuid] find_member_append [OF afree, of r uuid] su
    by (simp_all add: getRoomBySocketId_def rooms is_member_def assms(7))
  moreover have "location a = None \<or> location u = None \<longrightarrow> distance r = None"
    by (auto simp: assms(7) room_distance_def split: option.splits)
  ultimately show ?thesis
    using step w rooms su by (simp add: assms(7))
qed

lemma located_waiting_state:
  "run initial located_waiting =
     \<lparr>waitingUsers = [located_profile ''a'' (Some ''alice'') 3 lima], activeRooms = [],
      userSockets =
        [(''a'', located_profile ''a'' (Some ''alice'') 1 lima),
         (''b'', located_profile ''b'' None 2 nairobi)],
      sockets =
        [(''a'', \<lparr>userLocation = Some lima, clientIP = ''10.0.0.1''\<rparr>),
         (''b'', \<lparr>userLocation = Some nairobi, clientIP = ''10.0.0.1''\<rparr>)],
      adapter = [(''a'', ''a''), (''b'', ''b'')]\<rparr>"
  by (simp add: eval_defs)

theorem find_partner_pairs_with_waiting_witness:
  "admissible initial (located_waiting @ [Request ''b'' (Find_partner ''r1'' 4)]) \<and>
   waitingUsers (run initial located_waiting) = [located_profile ''a'' (Some ''alice'') 3 lima] \<and>
   socketId (located_profile ''a'' (Some ''alice'') 3 lima) \<noteq> ''b'' \<and>
   map_of (userSockets (run initial located_waiting)) ''b'' =
     Some (located_profile ''b'' None 2 nairobi) \<and>
   getRoomBySocketId (run initial located_waiting) ''b'' = None \<and>
   snd (step (run initial located_waiting) (Request ''b'' (Find_partner ''r1'' 4))) =
     [(''b'', Partner_found
         \<lparr>roomId = ''r1'', partnerId = ''a'', partner_nickname = ''alice'',
          partner_location =
            Some \<lparr>info_country = ''Peru'', info_city = ''Lima'', info_region = ''Lima'',
                  info_distance = Some (math_round (haversine (- 1) 37 (- 12) (- 77)))\<rparr>\<rparr>),
      (''a'', Partner_found
         \<lparr>roomId = ''r1'', partnerId = ''b'', partner_nickname = ''Anonymous'',
          partner_location =
            Some \<lparr>info_country = ''Kenya'', info_city = ''Nairobi'', info_region = ''Nairobi'',
                  info_distance = Some (math_round (haversine (- 1) 37 (- 12) (- 77)))\<rparr>\<rparr>)] \<and>
   waitingUsers (fst (step (run initial located_waiting) (Request ''b'' (Find_partner ''r1'' 4)))) =
     [] \<and>
   activeRooms (fst (step (run initial located_waiting) (Request ''b'' (Find_partner ''r1'' 4)))) =
     [(''r1'', \<lparr>room_id = ''r1'', user1 = located_profile ''b'' None 2 nairobi,
                user2 = located_profile ''a'' (Some ''alice'') 3 lima, createdAt = 4,
                messages = [],
                distance = Some (math_round (haversine (- 1) 37 (- 12) (- 77)))\<rparr>)]"
proof -
  have adm: "admissible initial (located_waiting @ [Request ''b'' (Find_partner ''r1'' 4)])"
    by (simp add: admissible_append located_waiting_state) (simp add: eval_defs)
  have h: "waitingUsers (run initial located_waiting) = [located_profile ''a'' (Some ''alice'') 3 lima]"
    "socketId (located_profile ''a'' (Some ''alice'') 3 lima) \<noteq> ''b''"
    "map_of (userSockets (run initial located_waiting)) ''b'' =
       Some (located_profile ''b'' None 2 nairobi)"
    "getRoomBySocketId (run initial located_waiting) ''b'' = None"
    by (simp_all add: located_waiting_state) (simp_all add: eval_defs)
  have proj:
    "nickname_or_anonymous (nickname (located_profile ''a'' (Some ''alice'') 3 lima)) = ''alice''"
    "nickname_or_anonymous (nickname (located_profile ''b'' None 2 nairobi)) = ''Anonymous''"
    "location_summary (location (located_profile ''a'' (Some ''alice'') 3 lima)) d =
       Some \<lparr>info_country = ''Peru'', info_city = ''Lima'', info_region = ''Lima'',
             info_distance = d\<rparr>"
    "location_summary (location (located_profile ''b'' None 2 nairobi)) d =
       Some \<lparr>info_country = ''Kenya'', info_city = ''Nairobi'', info_region = ''Nairobi'',
             info_distance = d\<rparr>"
    "room_distance (located_profile ''b'' None 2 nairobi)
       (located_profile ''a'' (Some ''alice'') 3 lima) =
       Some (math_round (haversine (- 1) 37 (- 12) (- 77)))"
    "socketId (located_profile ''a'' (Some ''alice'') 3 lima) = ''a''"
    "activeRooms (run initial located_waiting) = []" for d
    by (simp_all add: located_waiting_state)
       (simp_all add: eval_defs lima_def nairobi_def calculateDistance_def falsy_number_def)
  note inst = find_partner_pairs_with_waiting [OF adm refl h refl refl]
  show ?thesis
    using adm h inst by (simp add: proj del: step.simps)
qed

end
